theory Spec2Isabelle
  imports Main
begin

section \<open>Errors\<close>

text \<open>
  The engine and its tests observe a Go \<^verbatim>\<open>error\<close> in two ways: through its method
  \<^verbatim>\<open>Error()\<close>, and by printing it with the verb \<^verbatim>\<open>%v\<close> (\<^verbatim>\<open>saga.go\<close>, lines 87 and
  116). For \<^verbatim>\<open>%v\<close> the package \<^verbatim>\<open>fmt\<close> calls the method \<^verbatim>\<open>Format\<close> of an
  error that implements \<^verbatim>\<open>fmt.Formatter\<close>, and \<^verbatim>\<open>Error()\<close> of any other, so the two
  texts of an error can differ. An error is these two texts, and a returned
  \<^verbatim>\<open>error\<close> is an \<open>error option\<close> (\<open>None\<close> is \<^verbatim>\<open>nil\<close>).
\<close>

record error =
  Error :: string
  Format_v :: string

text \<open>
  \<open>plain_error msg\<close> prints under \<^verbatim>\<open>%v\<close> as its \<^verbatim>\<open>Error()\<close> text. Such are the
  errors of \<^verbatim>\<open>errors.New\<close> of the standard library, which the tests return from
  their actions, and the errors of the two functions of \<^verbatim>\<open>github.com/pkg/errors\<close>
  that \<^verbatim>\<open>saga.go\<close> calls (their \<^verbatim>\<open>Format\<close> writes \<^verbatim>\<open>Error()\<close> for \<^verbatim>\<open>%v\<close>):
  \<^verbatim>\<open>Wrapf(err, format, args...)\<close>, for an \<^verbatim>\<open>err\<close> that is not \<^verbatim>\<open>nil\<close>, has the
  message \<^verbatim>\<open>format(args) + ": " + err.Error()\<close>, and \<^verbatim>\<open>Errorf(format, args...)\<close> the
  message \<^verbatim>\<open>format(args)\<close>. In both, the text of the format with its arguments
  is the argument \<open>msg\<close>. \<open>format_v\<close> is what \<^verbatim>\<open>%v\<close> prints for a slice of errors:
  what it prints for each, separated by one space, in square brackets.
\<close>

definition plain_error :: "string \<Rightarrow> error" where
  "plain_error msg = \<lparr>Error = msg, Format_v = msg\<rparr>"

definition errors_New :: "string \<Rightarrow> error" where
  "errors_New text = plain_error text"

definition Wrapf :: "error \<Rightarrow> string \<Rightarrow> error" where
  "Wrapf err msg = plain_error (msg @ '': '' @ Error err)"

definition Errorf :: "string \<Rightarrow> error" where
  "Errorf msg = plain_error msg"

fun join_v :: "string list \<Rightarrow> string" where
  "join_v [] = []"
| "join_v [e] = e"
| "join_v (e # es) = e @ '' '' @ join_v es"

definition format_v :: "error list \<Rightarrow> string" where
  "format_v errs = ''['' @ join_v (map Format_v errs) @ '']''"

text \<open>An index expression \<^verbatim>\<open>s.steps[i]\<close> panics when \<^verbatim>\<open>i\<close> is out of range.\<close>

datatype panic = IndexOutOfRange int nat

definition index :: "'a list \<Rightarrow> int \<Rightarrow> panic + 'a" where
  "index xs i =
     (if 0 \<le> i \<and> i < int (length xs) then Inr (xs ! nat i)
      else Inl (IndexOutOfRange i (length xs)))"

section \<open>Step\<close>

text \<open>
  The two closures of a step act on whatever they captured and on the context they are
  given, which the engine passes on as it got it: the world \<open>'w\<close>. An action returns
  its error and the world it leaves; an action that panics or does not return is not
  modelled.
\<close>

type_synonym 'w action = "'w \<Rightarrow> error option \<times> 'w"

record 'w Step =
  name :: string
  forward :: "'w action"
  compensate :: "'w action"

definition NewStep :: "string \<Rightarrow> 'w action \<Rightarrow> 'w action \<Rightarrow> 'w Step" where
  "NewStep n f c = \<lparr>name = n, forward = f, compensate = c\<rparr>"

definition Name :: "'w Step \<Rightarrow> string" where
  "Name s = name s"

definition ExecuteForward :: "'w Step \<Rightarrow> 'w action" where
  "ExecuteForward s w = forward s w"

definition ExecuteCompensate :: "'w Step \<Rightarrow> 'w action" where
  "ExecuteCompensate s w = compensate s w"

section \<open>StateManager\<close>

text \<open>
  The interface: two methods over the state \<open>'s\<close> of the object that implements it,
  each returning the object it leaves. \<^verbatim>\<open>StepState\<close> returns both a boolean and an
  error, as in Go.
\<close>

record 's StateManager =
  SetStepState :: "int \<Rightarrow> bool \<Rightarrow> 's \<Rightarrow> error option \<times> 's"
  StepState :: "int \<Rightarrow> 's \<Rightarrow> (bool \<times> error option) \<times> 's"

subsection \<open>InMemoryStateManager\<close>

record InMemoryStateManager =
  state :: "int \<rightharpoonup> bool"

definition NewInMemoryStateManager :: InMemoryStateManager where
  "NewInMemoryStateManager = \<lparr>state = Map.empty\<rparr>"

definition InMemory_SetStepState ::
  "int \<Rightarrow> bool \<Rightarrow> InMemoryStateManager \<Rightarrow> error option \<times> InMemoryStateManager" where
  "InMemory_SetStepState stepIndex success m =
     (None, m\<lparr>state := (state m)(stepIndex \<mapsto> success)\<rparr>)"

definition InMemory_StepState ::
  "int \<Rightarrow> InMemoryStateManager \<Rightarrow> (bool \<times> error option) \<times> InMemoryStateManager" where
  "InMemory_StepState stepIndex m =
     (case state m stepIndex of
        None \<Rightarrow> ((False, None), m)
      | Some st \<Rightarrow> ((st, None), m))"

definition InMemory :: "InMemoryStateManager StateManager" where
  "InMemory = \<lparr>SetStepState = InMemory_SetStepState, StepState = InMemory_StepState\<rparr>"

section \<open>Saga\<close>

text \<open>
  Every call the engine makes on a step or on the state manager is logged with its
  arguments and what it returned. The log is not in the source; it is what the
  statements about which actions are invoked, and in which order, are written over.
\<close>

datatype event =
    StepStateCall int bool "error option"
  | SetStepStateCall int bool "error option"
  | ForwardCall int "error option"
  | CompensateCall int "error option"

text \<open>
  The first three fields are those of the struct \<^verbatim>\<open>saga\<close> (the mutex is left out:
  the model is of one thread). \<open>store\<close> is the object behind \<open>stateManager\<close>,
  \<open>world\<close> what the closures of the steps act on, \<open>trace\<close> the log. Step
  actions do not touch the saga or the state manager's object, nor the state manager the
  world. \<^verbatim>\<open>currentStep\<close> is an \<open>int\<close>: it stays between 0 and the length of the
  step sequence and the index of the loop of \<^verbatim>\<open>Compensate\<close> stops at -1, so the 64
  bits of Go's \<^verbatim>\<open>int\<close> never wrap.
\<close>

record ('w, 's) saga =
  steps :: "'w Step list"
  currentStep :: int
  stateManager :: "'s StateManager"
  store :: 's
  world :: 'w
  trace :: "event list"

definition New :: "'w \<Rightarrow> ('w, InMemoryStateManager) saga" where
  "New w = \<lparr>steps = [], currentStep = 0, stateManager = InMemory,
            store = NewInMemoryStateManager, world = w, trace = []\<rparr>"

definition WithStateManager ::
  "'s StateManager \<Rightarrow> 's \<Rightarrow> ('w, 't) saga \<Rightarrow> ('w, 's) saga" where
  "WithStateManager sm obj s =
     \<lparr>steps = steps s, currentStep = currentStep s, stateManager = sm,
      store = obj, world = world s, trace = trace s\<rparr>"

definition AddStep :: "'w Step \<Rightarrow> ('w, 's) saga \<Rightarrow> ('w, 's) saga" where
  "AddStep step s = s\<lparr>steps := steps s @ [step]\<rparr>"

subsection \<open>The calls of the engine\<close>

definition call_StepState ::
  "int \<Rightarrow> ('w, 's) saga \<Rightarrow> (bool \<times> error option) \<times> ('w, 's) saga" where
  "call_StepState i s =
     (case StepState (stateManager s) i (store s) of
        ((b, err), obj) \<Rightarrow>
          ((b, err), s\<lparr>store := obj, trace := trace s @ [StepStateCall i b err]\<rparr>))"

definition call_SetStepState ::
  "int \<Rightarrow> bool \<Rightarrow> ('w, 's) saga \<Rightarrow> error option \<times> ('w, 's) saga" where
  "call_SetStepState i b s =
     (case SetStepState (stateManager s) i b (store s) of
        (err, obj) \<Rightarrow>
          (err, s\<lparr>store := obj, trace := trace s @ [SetStepStateCall i b err]\<rparr>))"

definition call_ExecuteForward ::
  "'w Step \<Rightarrow> int \<Rightarrow> ('w, 's) saga \<Rightarrow> error option \<times> ('w, 's) saga" where
  "call_ExecuteForward step i s =
     (case ExecuteForward step (world s) of
        (err, w) \<Rightarrow> (err, s\<lparr>world := w, trace := trace s @ [ForwardCall i err]\<rparr>))"

definition call_ExecuteCompensate ::
  "'w Step \<Rightarrow> int \<Rightarrow> ('w, 's) saga \<Rightarrow> error option \<times> ('w, 's) saga" where
  "call_ExecuteCompensate step i s =
     (case ExecuteCompensate step (world s) of
        (err, w) \<Rightarrow> (err, s\<lparr>world := w, trace := trace s @ [CompensateCall i err]\<rparr>))"

subsection \<open>Compensate\<close>

text \<open>The loop \<^verbatim>\<open>for i := s.currentStep; i >= 0; i--\<close> with its accumulator.\<close>

function compensate_loop ::
  "int \<Rightarrow> error list \<Rightarrow> ('w, 's) saga \<Rightarrow> (panic + error list) \<times> ('w, 's) saga" where
  "compensate_loop i compensationErrors s =
     (if i \<ge> 0 then
        (case index (steps s) i of
           Inl p \<Rightarrow> (Inl p, s)
         | Inr step \<Rightarrow>
             (case call_ExecuteCompensate step i s of
                (Some err, s') \<Rightarrow> compensate_loop (i - 1) (compensationErrors @ [err]) s'
              | (None, s') \<Rightarrow> compensate_loop (i - 1) compensationErrors s'))
      else (Inr compensationErrors, s))"
  by pat_completeness auto
termination
  by (relation "measure (\<lambda>(i, errs, s). nat (i + 1))") auto

definition Compensate :: "('w, 's) saga \<Rightarrow> (panic + error option) \<times> ('w, 's) saga" where
  "Compensate s =
     (case compensate_loop (currentStep s) [] s of
        (Inl p, s') \<Rightarrow> (Inl p, s')
      | (Inr compensationErrors, s') \<Rightarrow>
          (if length compensationErrors > 0
           then (Inr (Some (Errorf (''compensation failed with errors: '' @
                    format_v compensationErrors))), s')
           else (Inr None, s')))"

subsection \<open>Execute\<close>

text \<open>
  One pass through the body of the loop of \<^verbatim>\<open>Execute\<close> either goes on to the
  next index (\<^verbatim>\<open>continue\<close>, or the end of the body) or returns.
\<close>

datatype 'r flow = Continue | Return 'r

definition execute_body ::
  "('w, 's) saga \<Rightarrow> (panic + error option) flow \<times> ('w, 's) saga" where
  "execute_body s =
     (case index (steps s) (currentStep s) of
        Inl p \<Rightarrow> (Return (Inl p), s)
      | Inr step \<Rightarrow>
          (case call_StepState (currentStep s) s of
             ((stepCompleted, Some err), s1) \<Rightarrow>
               (Return (Inr (Some (Wrapf err (''retrieving state for step '' @ Name step)))), s1)
           | ((stepCompleted, None), s1) \<Rightarrow>
               if stepCompleted then (Continue, s1)
               else
                 (case call_ExecuteForward step (currentStep s1) s1 of
                    (Some err, s2) \<Rightarrow>
                      (case call_SetStepState (currentStep s2) False s2 of
                         (Some err', s3) \<Rightarrow>
                           (Return (Inr (Some (Wrapf err' (''setting state for step '' @ Name step)))), s3)
                       | (None, s3) \<Rightarrow>
                           (case Compensate s3 of
                              (Inl p, s4) \<Rightarrow> (Return (Inl p), s4)
                            | (Inr (Some errComp), s4) \<Rightarrow>
                                (Return (Inr (Some (Wrapf errComp
                                   (''compensating after failure in step '' @ Name step @ '': '' @
                                      Format_v err)))), s4)
                            | (Inr None, s4) \<Rightarrow>
                                (Return (Inr (Some (Wrapf err (''executing step '' @ Name step)))), s4)))
                  | (None, s2) \<Rightarrow>
                      (case call_SetStepState (currentStep s2) True s2 of
                         (Some err', s3) \<Rightarrow>
                           (Return (Inr (Some (Wrapf err' (''setting state for step '' @ Name step)))), s3)
                       | (None, s3) \<Rightarrow> (Continue, s3)))))"

text \<open>None of the calls changes the step sequence or the loop variable.\<close>

lemma call_StepState_frame:
  "steps (snd (call_StepState i s)) = steps s \<and>
   currentStep (snd (call_StepState i s)) = currentStep s \<and>
   stateManager (snd (call_StepState i s)) = stateManager s \<and>
   world (snd (call_StepState i s)) = world s"
  by (simp add: call_StepState_def split: prod.splits)

lemma call_SetStepState_frame:
  "steps (snd (call_SetStepState i b s)) = steps s \<and>
   currentStep (snd (call_SetStepState i b s)) = currentStep s \<and>
   stateManager (snd (call_SetStepState i b s)) = stateManager s \<and>
   world (snd (call_SetStepState i b s)) = world s"
  by (simp add: call_SetStepState_def split: prod.splits)

lemma call_ExecuteForward_frame:
  "steps (snd (call_ExecuteForward st i s)) = steps s \<and>
   currentStep (snd (call_ExecuteForward st i s)) = currentStep s \<and>
   stateManager (snd (call_ExecuteForward st i s)) = stateManager s \<and>
   store (snd (call_ExecuteForward st i s)) = store s"
  by (simp add: call_ExecuteForward_def split: prod.splits)

lemma call_ExecuteCompensate_frame:
  "steps (snd (call_ExecuteCompensate st i s)) = steps s \<and>
   currentStep (snd (call_ExecuteCompensate st i s)) = currentStep s \<and>
   stateManager (snd (call_ExecuteCompensate st i s)) = stateManager s \<and>
   store (snd (call_ExecuteCompensate st i s)) = store s"
  by (simp add: call_ExecuteCompensate_def split: prod.splits)

declare compensate_loop.simps [simp del]

lemma compensate_loop_frame:
  "steps (snd (compensate_loop i errs s)) = steps s \<and>
   currentStep (snd (compensate_loop i errs s)) = currentStep s \<and>
   stateManager (snd (compensate_loop i errs s)) = stateManager s \<and>
   store (snd (compensate_loop i errs s)) = store s"
proof (induction i errs s rule: compensate_loop.induct)
  case (1 i errs s)
  show ?case
  proof (cases "i \<ge> 0")
    case False
    then show ?thesis by (simp add: compensate_loop.simps)
  next
    case True
    show ?thesis
    proof (cases "index (steps s) i")
      case (Inl p)
      with True show ?thesis by (simp add: compensate_loop.simps)
    next
      case (Inr step)
      obtain r s' where c: "call_ExecuteCompensate step i s = (r, s')"
        by (cases "call_ExecuteCompensate step i s")
      have f: "steps s' = steps s \<and> currentStep s' = currentStep s \<and>
               stateManager s' = stateManager s \<and> store s' = store s"
        using call_ExecuteCompensate_frame [of step i s] c by simp
      show ?thesis
        using "1.IH" True Inr c f
        by (cases r) (auto simp: compensate_loop.simps [of i errs s])
    qed
  qed
qed

lemma Compensate_frame:
  "steps (snd (Compensate s)) = steps s \<and>
   currentStep (snd (Compensate s)) = currentStep s \<and>
   stateManager (snd (Compensate s)) = stateManager s \<and>
   store (snd (Compensate s)) = store s"
  using compensate_loop_frame [of "currentStep s" "[]" s]
  by (cases "compensate_loop (currentStep s) [] s")
     (auto simp: Compensate_def split: sum.splits)

lemma execute_body_frame:
  "steps (snd (execute_body s)) = steps s \<and>
   currentStep (snd (execute_body s)) = currentStep s \<and>
   stateManager (snd (execute_body s)) = stateManager s"
proof (cases "index (steps s) (currentStep s)")
  case (Inl p)
  then show ?thesis by (simp add: execute_body_def)
next
  case (Inr step)
  obtain b e1 s1 where q: "call_StepState (currentStep s) s = ((b, e1), s1)"
    by (cases "call_StepState (currentStep s) s") auto
  have f1: "steps s1 = steps s \<and> currentStep s1 = currentStep s \<and> stateManager s1 = stateManager s"
    using call_StepState_frame [of "currentStep s" s] q by simp
  obtain e2 s2 where x: "call_ExecuteForward step (currentStep s1) s1 = (e2, s2)"
    by (cases "call_ExecuteForward step (currentStep s1) s1")
  have f2: "steps s2 = steps s \<and> currentStep s2 = currentStep s \<and> stateManager s2 = stateManager s"
    using call_ExecuteForward_frame [of step "currentStep s1" s1] x f1 by simp
  obtain e3 s3 where w: "call_SetStepState (currentStep s2) (e2 = None) s2 = (e3, s3)"
    by (cases "call_SetStepState (currentStep s2) (e2 = None) s2")
  have f3: "steps s3 = steps s \<and> currentStep s3 = currentStep s \<and> stateManager s3 = stateManager s"
    using call_SetStepState_frame [of "currentStep s2" "e2 = None" s2] w f2 by simp
  obtain r4 s4 where c: "Compensate s3 = (r4, s4)"
    by (cases "Compensate s3")
  have f4: "steps s4 = steps s \<and> currentStep s4 = currentStep s \<and> stateManager s4 = stateManager s"
    using Compensate_frame [of s3] c f3 by simp
  show ?thesis
    using Inr q x w c f1 f2 f3 f4
    by (auto simp: execute_body_def split: option.splits sum.splits)
qed

text \<open>
  The loop \<^verbatim>\<open>for s.currentStep = 0; s.currentStep < len(s.steps); s.currentStep++\<close>,
  entered at the test of its condition.
\<close>

function execute_loop :: "('w, 's) saga \<Rightarrow> (panic + error option) \<times> ('w, 's) saga" where
  "execute_loop s =
     (if currentStep s < int (length (steps s)) then
        (case execute_body s of
           (Continue, s') \<Rightarrow> execute_loop (s'\<lparr>currentStep := currentStep s' + 1\<rparr>)
         | (Return r, s') \<Rightarrow> (r, s'))
      else (Inr None, s))"
  by pat_completeness auto
termination
proof (relation "measure (\<lambda>s. nat (int (length (steps s)) - currentStep s))")
  show "wf (measure (\<lambda>s. nat (int (length (steps s)) - currentStep s)))"
    by simp
next
  fix s :: "('w, 's) saga" and x y
  assume lt: "currentStep s < int (length (steps s))" and eq: "(x, y) = execute_body s"
  have "steps y = steps s \<and> currentStep y = currentStep s"
    using execute_body_frame [of s] eq [symmetric] by simp
  with lt show "(y\<lparr>currentStep := currentStep y + 1\<rparr>, s)
      \<in> measure (\<lambda>s. nat (int (length (steps s)) - currentStep s))"
    by simp
qed

declare execute_loop.simps [simp del]

definition Execute :: "('w, 's) saga \<Rightarrow> (panic + error option) \<times> ('w, 's) saga" where
  "Execute s = execute_loop (s\<lparr>currentStep := 0\<rparr>)"

section \<open>Reading the log\<close>

text \<open>
  What a run logged, and the projections of a log that the statements below use: the
  indices of the forward and of the compensating actions invoked, in order, the errors of
  the compensating actions that failed, in order, the compensating calls with what each
  returned, and the index of the first forward action that returned an error.
\<close>

definition events :: "('w, 's) saga \<Rightarrow> ('w, 's) saga \<Rightarrow> event list" where
  "events s s' = drop (length (trace s)) (trace s')"

definition forwarded :: "event list \<Rightarrow> int list" where
  "forwarded evs = [i. ForwardCall i e \<leftarrow> evs]"

definition compensated :: "event list \<Rightarrow> int list" where
  "compensated evs = [i. CompensateCall i e \<leftarrow> evs]"

definition compensate_errors :: "event list \<Rightarrow> error list" where
  "compensate_errors evs = [e. CompensateCall i (Some e) \<leftarrow> evs]"

definition compensations :: "event list \<Rightarrow> (int \<times> error option) list" where
  "compensations evs = [(i, r). CompensateCall i r \<leftarrow> evs]"

definition first_failed_forward :: "event list \<Rightarrow> int option" where
  "first_failed_forward evs =
     (case [i. ForwardCall i (Some e) \<leftarrow> evs] of [] \<Rightarrow> None | i # _ \<Rightarrow> Some i)"

section \<open>What a state manager promises\<close>

text \<open>
  The comments of the interface \<^verbatim>\<open>StateManager\<close> say what its two methods are for:
  \<^verbatim>\<open>SetStepState\<close> records the completion state of a step, \<^verbatim>\<open>StepState\<close>
  retrieves it, true if the step was completed, false otherwise. \<open>store_contract sm recorded\<close>
  says so of an implementation \<open>sm\<close>, \<open>recorded st i\<close> being whether the object \<open>st\<close>
  holds a success record for \<open>i\<close>: a query changes no record and, when it returns no
  error, answers \<open>recorded st i\<close>; a write that returns no error leaves the value
  written as the record of its index and every other record as it was.
  \<open>writes_succeed\<close> and \<open>reads_succeed\<close> say that a method never returns an error.
\<close>

definition store_contract :: "'s StateManager \<Rightarrow> ('s \<Rightarrow> int \<Rightarrow> bool) \<Rightarrow> bool" where
  "store_contract sm recorded \<longleftrightarrow>
     (\<forall>i st. recorded (snd (StepState sm i st)) = recorded st \<and>
        (snd (fst (StepState sm i st)) = None \<longrightarrow> fst (fst (StepState sm i st)) = recorded st i)) \<and>
     (\<forall>i b st. fst (SetStepState sm i b st) = None \<longrightarrow>
        recorded (snd (SetStepState sm i b st)) = (recorded st)(i := b))"

definition writes_succeed :: "'s StateManager \<Rightarrow> bool" where
  "writes_succeed sm \<longleftrightarrow> (\<forall>i b st. fst (SetStepState sm i b st) = None)"

definition reads_succeed :: "'s StateManager \<Rightarrow> bool" where
  "reads_succeed sm \<longleftrightarrow> (\<forall>i st. snd (fst (StepState sm i st)) = None)"

definition InMemory_recorded :: "InMemoryStateManager \<Rightarrow> int \<Rightarrow> bool" where
  "InMemory_recorded m i \<longleftrightarrow> state m i = Some True"

section \<open>The points of the loop of Execute\<close>

text \<open>
  \<open>loop_head s t\<close>: a call of \<open>Execute\<close> on \<open>s\<close> reaches the test of the loop
  condition in the state \<open>t\<close>. \<open>completed_below recorded t\<close>: every index from 0 up
  to, and without, \<open>currentStep t\<close> has a success record in the store of \<open>t\<close>.
\<close>

definition completed_below :: "('s \<Rightarrow> int \<Rightarrow> bool) \<Rightarrow> ('w, 's) saga \<Rightarrow> bool" where
  "completed_below recorded s \<longleftrightarrow>
     (\<forall>i. 0 \<le> i \<and> i < currentStep s \<longrightarrow> recorded (store s) i)"

inductive loop_head :: "('w, 's) saga \<Rightarrow> ('w, 's) saga \<Rightarrow> bool" for s :: "('w, 's) saga" where
  lh_enter: "loop_head s (s\<lparr>currentStep := 0\<rparr>)"
| lh_next: "loop_head s t \<Longrightarrow> currentStep t < int (length (steps t)) \<Longrightarrow>
     execute_body t = (Continue, t') \<Longrightarrow>
     loop_head s (t'\<lparr>currentStep := currentStep t' + 1\<rparr>)"

section \<open>What the specification says of the actions\<close>

text \<open>
  Two functions written from the words of the specification, to compare the engine with.
  \<open>spec_forward_until_failure\<close> invokes the forward actions of a sequence of steps in
  order, each on the world the one before left, and stops with the first that returns an
  error (4.3: steps run in sequence, and on failure \<open>Execute\<close> returns): it gives
  how many succeeded, that error, and the world left. \<open>spec_compensate_each\<close> invokes the
  compensating action of every step of a sequence in order, each on the world the one
  before left, whatever they return (4.3: invoking \<^verbatim>\<open>ExecuteCompensate\<close> on each
  regardless of whether earlier compensations failed): it gives what each returned and
  the world left; \<open>failures\<close> are the errors among what they returned.
\<close>

fun spec_forward_until_failure :: "'w Step list \<Rightarrow> 'w \<Rightarrow> nat \<times> error option \<times> 'w" where
  "spec_forward_until_failure [] w = (0, None, w)"
| "spec_forward_until_failure (st # sts) w =
     (case forward st w of
        (Some err, w1) \<Rightarrow> (0, Some err, w1)
      | (None, w1) \<Rightarrow>
          (case spec_forward_until_failure sts w1 of (k, r, w2) \<Rightarrow> (Suc k, r, w2)))"

fun spec_compensate_each :: "'w Step list \<Rightarrow> 'w \<Rightarrow> error option list \<times> 'w" where
  "spec_compensate_each [] w = ([], w)"
| "spec_compensate_each (st # sts) w =
     (case compensate st w of
        (r, w1) \<Rightarrow> (case spec_compensate_each sts w1 of (rs, w2) \<Rightarrow> (r # rs, w2)))"

definition failures :: "error option list \<Rightarrow> error list" where
  "failures rs = [e. Some e \<leftarrow> rs]"

section \<open>The runs of Execute\<close>

text \<open>
  \<open>run_shape sm sts i st evs r c st' w w'\<close> lists what the loop of \<open>Execute\<close> can do
  from index \<open>i\<close>, the store object \<open>st\<close> and the world \<open>w\<close>: the calls \<open>evs\<close> it
  makes, with what they return, the result \<open>r\<close>, the value \<open>c\<close> it leaves in
  \<open>currentStep\<close>, and the store object \<open>st'\<close> and the world \<open>w'\<close> it leaves;
  what an action is logged to return, it returns on the world the calls before left. It is not a definition of the engine: the lemma
  \<open>execute_loop_shape\<close> proves that every run of the loop is of this shape.
\<close>

inductive run_shape ::
  "'s StateManager \<Rightarrow> 'w Step list \<Rightarrow> int \<Rightarrow> 's \<Rightarrow> event list \<Rightarrow>
   (panic + error option) \<Rightarrow> int \<Rightarrow> 's \<Rightarrow> 'w \<Rightarrow> 'w \<Rightarrow> bool"
  for sm :: "'s StateManager" and sts :: "'w Step list" where
  rs_exit: "\<not> i < int (length sts) \<Longrightarrow> run_shape sm sts i st [] (Inr None) i st w w"
| rs_skipped: "0 \<le> i \<Longrightarrow> i < int (length sts) \<Longrightarrow>
     StepState sm i st = ((True, None), st1) \<Longrightarrow>
     run_shape sm sts (i + 1) st1 evs r c st' w w' \<Longrightarrow>
     run_shape sm sts i st (StepStateCall i True None # evs) r c st' w w'"
| rs_completed: "0 \<le> i \<Longrightarrow> i < int (length sts) \<Longrightarrow>
     StepState sm i st = ((False, None), st1) \<Longrightarrow>
     SetStepState sm i True st1 = (None, st2) \<Longrightarrow>
     run_shape sm sts (i + 1) st2 evs r c st' (snd (forward (sts ! nat i) w)) w' \<Longrightarrow>
     fst (forward (sts ! nat i) w) = None \<Longrightarrow>
     run_shape sm sts i st
       (StepStateCall i False None # ForwardCall i None # SetStepStateCall i True None # evs)
       r c st' w w'"
| rs_read_failed: "0 \<le> i \<Longrightarrow> i < int (length sts) \<Longrightarrow>
     StepState sm i st = ((b, Some e), st1) \<Longrightarrow>
     run_shape sm sts i st [StepStateCall i b (Some e)]
       (Inr (Some (Wrapf e (''retrieving state for step '' @ Name (sts ! nat i))))) i st1 w w"
| rs_write_failed: "0 \<le> i \<Longrightarrow> i < int (length sts) \<Longrightarrow>
     StepState sm i st = ((False, None), st1) \<Longrightarrow>
     SetStepState sm i (fe = None) st1 = (Some e, st2) \<Longrightarrow>
     fst (forward (sts ! nat i) w) = fe \<Longrightarrow>
     run_shape sm sts i st
       [StepStateCall i False None, ForwardCall i fe, SetStepStateCall i (fe = None) (Some e)]
       (Inr (Some (Wrapf e (''setting state for step '' @ Name (sts ! nat i))))) i st2
       w (snd (forward (sts ! nat i) w))"
| rs_compensated: "0 \<le> i \<Longrightarrow> i < int (length sts) \<Longrightarrow>
     StepState sm i st = ((False, None), st1) \<Longrightarrow>
     SetStepState sm i False st1 = (None, st2) \<Longrightarrow>
     compensated cevs = rev [0..i] \<Longrightarrow> forwarded cevs = [] \<Longrightarrow>
     \<forall>ev \<in> set cevs. \<exists>j e'. ev = CompensateCall j e' \<Longrightarrow>
     fst (forward (sts ! nat i) w) = Some e \<Longrightarrow>
     spec_compensate_each (rev (take (Suc (nat i)) sts)) (snd (forward (sts ! nat i) w)) = (rs, w') \<Longrightarrow>
     cevs = map2 CompensateCall (rev [0..i]) rs \<Longrightarrow>
     run_shape sm sts i st
       (StepStateCall i False None # ForwardCall i (Some e) # SetStepStateCall i False None # cevs)
       (Inr (Some (if compensate_errors cevs = []
                   then Wrapf e (''executing step '' @ Name (sts ! nat i))
                   else Wrapf (Errorf (''compensation failed with errors: '' @ format_v (compensate_errors cevs)))
                          (''compensating after failure in step '' @ Name (sts ! nat i) @ '': '' @ Format_v e))))
       i st2 w w'"

section \<open>The sagas of the tests\<close>

text \<open>
  The state manager of \<^verbatim>\<open>saga_test.go\<close>, which returns what its fields say, and the
  sagas of its test cases, the world being the field \<^verbatim>\<open>X\<close> of \<^verbatim>\<open>sampleState\<close>.
\<close>

record mockStateManager =
  setStepStateErr :: "error option"
  stepState :: bool
  stepStateErr :: "error option"

definition mock_SetStepState ::
  "int \<Rightarrow> bool \<Rightarrow> mockStateManager \<Rightarrow> error option \<times> mockStateManager" where
  "mock_SetStepState stepIndex success m = (setStepStateErr m, m)"

definition mock_StepState ::
  "int \<Rightarrow> mockStateManager \<Rightarrow> (bool \<times> error option) \<times> mockStateManager" where
  "mock_StepState stepIndex m = ((stepState m, stepStateErr m), m)"

definition Mock :: "mockStateManager StateManager" where
  "Mock = \<lparr>SetStepState = mock_SetStepState, StepState = mock_StepState\<rparr>"

definition both_succeed :: "(int, InMemoryStateManager) saga" where
  "both_succeed =
     AddStep (NewStep ''step2'' (\<lambda>x. (None, 2)) (\<lambda>x. (None, x - 1)))
       (AddStep (NewStep ''step1'' (\<lambda>x. (None, 1)) (\<lambda>x. (None, 0))) (New 0))"

definition second_fails :: "(int, InMemoryStateManager) saga" where
  "second_fails =
     AddStep (NewStep ''step2'' (\<lambda>x. (Some (errors_New ''step2 error''), x)) (\<lambda>x. (None, x - 1)))
       (AddStep (NewStep ''step1'' (\<lambda>x. (None, 1)) (\<lambda>x. (None, 0))) (New 0))"

definition failed_to_compensate :: "(int, InMemoryStateManager) saga" where
  "failed_to_compensate =
     AddStep (NewStep ''step2'' (\<lambda>x. (Some (errors_New ''step2 error''), x))
                (\<lambda>x. (Some (errors_New ''step2 compensate error''), x)))
       (AddStep (NewStep ''step1'' (\<lambda>x. (None, 1)) (\<lambda>x. (None, 0))) (New 0))"

definition state_read_error :: "(int, mockStateManager) saga" where
  "state_read_error =
     AddStep (NewStep ''step2'' (\<lambda>x. (None, 2)) (\<lambda>x. (None, x - 1)))
       (AddStep (NewStep ''step1'' (\<lambda>x. (None, 1)) (\<lambda>x. (None, 0)))
          (WithStateManager Mock
             \<lparr>setStepStateErr = None, stepState = False, stepStateErr = Some (errors_New ''step state error'')\<rparr>
             (New 0)))"

definition first_fails_write_error :: "(int, mockStateManager) saga" where
  "first_fails_write_error =
     AddStep (NewStep ''step2'' (\<lambda>x. (None, 2)) (\<lambda>x. (None, x - 1)))
       (AddStep (NewStep ''step1'' (\<lambda>x. (Some (errors_New ''step1 error''), x)) (\<lambda>x. (None, 0)))
          (WithStateManager Mock
             \<lparr>setStepStateErr = Some (errors_New ''set step state error''), stepState = False, stepStateErr = None\<rparr>
             (New 0)))"

definition state_write_error :: "(int, mockStateManager) saga" where
  "state_write_error =
     AddStep (NewStep ''step2'' (\<lambda>x. (None, 2)) (\<lambda>x. (None, x - 1)))
       (AddStep (NewStep ''step1'' (\<lambda>x. (None, 1)) (\<lambda>x. (None, 0)))
          (WithStateManager Mock
             \<lparr>setStepStateErr = Some (errors_New ''set step state error''), stepState = False, stepStateErr = None\<rparr>
             (New 0)))"

definition retry_partial :: "(int, InMemoryStateManager) saga" where
  "retry_partial =
     AddStep (NewStep ''step2'' (\<lambda>x. (Some (errors_New ''step2 error''), x)) (\<lambda>x. (None, x)))
       (AddStep (NewStep ''step1'' (\<lambda>x. (None, 1)) (\<lambda>x. (None, x))) (New 0))"

text \<open>
  More states to evaluate the engine on, whose actions all change the world, each in
  its own way: a saga of three steps, two of whose compensating actions fail, at its
  last index; a saga of three steps whose second forward action fails; a saga whose
  errors print under \<^verbatim>\<open>%v\<close> otherwise than \<^verbatim>\<open>Error()\<close> returns; the state in which
  the saga \<open>second_fails\<close> tests the loop condition for the second time; and a saga
  on a state manager that cannot answer for one index.
\<close>

definition two_compensations_fail :: "(int, InMemoryStateManager) saga" where
  "two_compensations_fail =
     (AddStep (NewStep ''c'' (\<lambda>x. (None, x)) (\<lambda>x. (Some (errors_New ''undo c''), x + 1)))
       (AddStep (NewStep ''b'' (\<lambda>x. (None, x)) (\<lambda>x. (None, x * 2)))
         (AddStep (NewStep ''a'' (\<lambda>x. (None, x)) (\<lambda>x. (Some (errors_New ''undo a''), x + 10)))
           (New 5))))
     \<lparr>currentStep := 2\<rparr>"

definition middle_fails :: "(int, InMemoryStateManager) saga" where
  "middle_fails =
     AddStep (NewStep ''c'' (\<lambda>x. (None, x + 1000)) (\<lambda>x. (None, x - 7)))
       (AddStep (NewStep ''b'' (\<lambda>x. (Some (errors_New ''b failed''), x + 100)) (\<lambda>x. (None, x * 2)))
         (AddStep (NewStep ''a'' (\<lambda>x. (None, x + 1)) (\<lambda>x. (None, x + 10))) (New 0)))"

definition formatted_errors :: "(int, InMemoryStateManager) saga" where
  "formatted_errors =
     AddStep (NewStep ''step2''
                (\<lambda>x. (Some \<lparr>Error = ''step2 error'', Format_v = ''E2''\<rparr>, x))
                (\<lambda>x. (Some \<lparr>Error = ''step2 compensate error'', Format_v = ''C2''\<rparr>, x)))
       (AddStep (NewStep ''step1'' (\<lambda>x. (None, 1)) (\<lambda>x. (None, 0))) (New 0))"

definition second_fails_at_step2 :: "(int, InMemoryStateManager) saga" where
  "second_fails_at_step2 =
     (snd (execute_body (second_fails\<lparr>currentStep := 0\<rparr>)))\<lparr>currentStep := 1\<rparr>"

definition unavailable_at :: "int \<Rightarrow> InMemoryStateManager StateManager" where
  "unavailable_at k =
     \<lparr>SetStepState = InMemory_SetStepState,
      StepState = (\<lambda>i m. if i = k then ((False, Some (errors_New ''store unavailable'')), m)
                          else InMemory_StepState i m)\<rparr>"

definition second_read_fails :: "(int, InMemoryStateManager) saga" where
  "second_read_fails = WithStateManager (unavailable_at 1) NewInMemoryStateManager both_succeed"

section \<open>Lemmas\<close>

subsection \<open>Projections of a log\<close>

lemma forwarded_simps [simp]:
  "forwarded [] = []"
  "forwarded (ForwardCall i e # evs) = i # forwarded evs"
  "forwarded (CompensateCall i e # evs) = forwarded evs"
  "forwarded (StepStateCall i b e # evs) = forwarded evs"
  "forwarded (SetStepStateCall i b e # evs) = forwarded evs"
  "forwarded (xs @ ys) = forwarded xs @ forwarded ys"
  by (simp_all add: forwarded_def)

lemma compensated_simps [simp]:
  "compensated [] = []"
  "compensated (ForwardCall i e # evs) = compensated evs"
  "compensated (CompensateCall i e # evs) = i # compensated evs"
  "compensated (StepStateCall i b e # evs) = compensated evs"
  "compensated (SetStepStateCall i b e # evs) = compensated evs"
  "compensated (xs @ ys) = compensated xs @ compensated ys"
  by (simp_all add: compensated_def)

lemma compensate_errors_simps [simp]:
  "compensate_errors [] = []"
  "compensate_errors (ForwardCall i e' # evs) = compensate_errors evs"
  "compensate_errors (CompensateCall i None # evs) = compensate_errors evs"
  "compensate_errors (CompensateCall i (Some e) # evs) = e # compensate_errors evs"
  "compensate_errors (StepStateCall i b e' # evs) = compensate_errors evs"
  "compensate_errors (SetStepStateCall i b e' # evs) = compensate_errors evs"
  "compensate_errors (xs @ ys) = compensate_errors xs @ compensate_errors ys"
  by (simp_all add: compensate_errors_def)

lemma compensations_simps [simp]:
  "compensations [] = []"
  "compensations (ForwardCall i e # evs) = compensations evs"
  "compensations (CompensateCall i e # evs) = (i, e) # compensations evs"
  "compensations (StepStateCall i b e # evs) = compensations evs"
  "compensations (SetStepStateCall i b e # evs) = compensations evs"
  "compensations (xs @ ys) = compensations xs @ compensations ys"
  by (simp_all add: compensations_def)

lemma failures_simps [simp]:
  "failures [] = []" "failures (None # rs) = failures rs"
  "failures (Some e # rs) = e # failures rs"
  by (simp_all add: failures_def)

lemma compensations_map2 [simp]:
  "compensations (map2 CompensateCall is rs) = zip is rs"
  by (induction "is" rs rule: list_induct2') simp_all

lemma compensated_map2:
  "length is = length rs \<Longrightarrow> compensated (map2 CompensateCall is rs) = is"
  by (induction "is" rs rule: list_induct2) simp_all

lemma compensate_errors_map2:
  "length is = length rs \<Longrightarrow> compensate_errors (map2 CompensateCall is rs) = failures rs"
proof (induction "is" rs rule: list_induct2)
  case Nil
  then show ?case by simp
next
  case (Cons i "is" r rs)
  then show ?case by (cases r) simp_all
qed

lemma spec_compensate_each_Cons:
  "spec_compensate_each (st # sts) w =
     (fst (compensate st w) # fst (spec_compensate_each sts (snd (compensate st w))),
      snd (spec_compensate_each sts (snd (compensate st w))))"
  by (simp split: prod.splits)

lemma length_compensate_each [simp]: "length (fst (spec_compensate_each sts w)) = length sts"
  by (induction sts arbitrary: w) (simp_all add: spec_compensate_each_Cons del: spec_compensate_each.simps(2))

lemma rev_take_Suc:
  "n < length xs \<Longrightarrow> rev (take (Suc n) xs) = xs ! n # rev (take n xs)"
  by (simp add: take_Suc_conv_app_nth)

lemma events_append [simp]: "trace s' = trace s @ evs \<Longrightarrow> events s s' = evs"
  by (simp add: events_def)

subsection \<open>The calls\<close>

lemma call_StepState_eq:
  "call_StepState i s = ((b, e), s1) \<Longrightarrow>
     fst (StepState (stateManager s) i (store s)) = (b, e) \<and>
     store s1 = snd (StepState (stateManager s) i (store s)) \<and>
     trace s1 = trace s @ [StepStateCall i b e] \<and>
     steps s1 = steps s \<and> currentStep s1 = currentStep s \<and>
     stateManager s1 = stateManager s \<and> world s1 = world s"
  by (auto simp: call_StepState_def split: prod.splits)

lemma call_SetStepState_eq:
  "call_SetStepState i b s = (e, s1) \<Longrightarrow>
     fst (SetStepState (stateManager s) i b (store s)) = e \<and>
     store s1 = snd (SetStepState (stateManager s) i b (store s)) \<and>
     trace s1 = trace s @ [SetStepStateCall i b e] \<and>
     steps s1 = steps s \<and> currentStep s1 = currentStep s \<and>
     stateManager s1 = stateManager s \<and> world s1 = world s"
  by (auto simp: call_SetStepState_def split: prod.splits)

lemma call_ExecuteForward_eq:
  "call_ExecuteForward st i s = (e, s1) \<Longrightarrow>
     fst (forward st (world s)) = e \<and>
     world s1 = snd (forward st (world s)) \<and>
     trace s1 = trace s @ [ForwardCall i e] \<and>
     steps s1 = steps s \<and> currentStep s1 = currentStep s \<and>
     stateManager s1 = stateManager s \<and> store s1 = store s"
  by (auto simp: call_ExecuteForward_def ExecuteForward_def split: prod.splits)

lemma call_ExecuteCompensate_eq:
  "call_ExecuteCompensate st i s = (e, s1) \<Longrightarrow>
     fst (compensate st (world s)) = e \<and>
     world s1 = snd (compensate st (world s)) \<and>
     trace s1 = trace s @ [CompensateCall i e] \<and>
     steps s1 = steps s \<and> currentStep s1 = currentStep s \<and>
     stateManager s1 = stateManager s \<and> store s1 = store s"
  by (auto simp: call_ExecuteCompensate_def ExecuteCompensate_def split: prod.splits)

subsection \<open>Compensate\<close>

lemma compensate_loop_neg: "i < 0 \<Longrightarrow> compensate_loop i errs s = (Inr errs, s)"
  by (simp add: compensate_loop.simps)

lemma compensate_loop_out_of_range:
  "int (length (steps s)) \<le> i \<Longrightarrow>
   compensate_loop i errs s = (Inl (IndexOutOfRange i (length (steps s))), s)"
  by (simp add: compensate_loop.simps [of i errs s] index_def)

lemma compensate_loop_step:
  "0 \<le> i \<Longrightarrow> i < int (length (steps s)) \<Longrightarrow>
   call_ExecuteCompensate (steps s ! nat i) i s = (e, s') \<Longrightarrow>
   compensate_loop i errs s =
     compensate_loop (i - 1) (errs @ (case e of None \<Rightarrow> [] | Some err \<Rightarrow> [err])) s'"
  by (cases e) (simp_all add: compensate_loop.simps [of i errs s] index_def)

lemma compensate_loop_shape:
  "- 1 \<le> i \<Longrightarrow> i < int (length (steps s)) \<Longrightarrow>
   \<exists>s' cevs. compensate_loop i errs s = (Inr (errs @ compensate_errors cevs), s') \<and>
     trace s' = trace s @ cevs \<and>
     compensated cevs = rev [0..i] \<and> forwarded cevs = [] \<and>
     (\<forall>ev \<in> set cevs. \<exists>j e. ev = CompensateCall j e) \<and>
     steps s' = steps s \<and> currentStep s' = currentStep s \<and>
     stateManager s' = stateManager s \<and> store s' = store s"
proof (induction "nat (i + 1)" arbitrary: i errs s)
  case 0
  then have "i < 0" by simp
  then show ?case by (simp add: compensate_loop_neg)
next
  case (Suc n)
  then have i0: "0 \<le> i" by simp
  obtain e s1 where c: "call_ExecuteCompensate (steps s ! nat i) i s = (e, s1)"
    by (cases "call_ExecuteCompensate (steps s ! nat i) i s")
  note f = call_ExecuteCompensate_eq [OF c]
  have "n = nat (i - 1 + 1)" using Suc.hyps(2) by simp
  moreover have "- 1 \<le> i - 1" using i0 by simp
  moreover have "i - 1 < int (length (steps s1))" using Suc.prems f by simp
  ultimately obtain s' cevs where
    IH: "compensate_loop (i - 1) (errs @ (case e of None \<Rightarrow> [] | Some err \<Rightarrow> [err])) s1 =
           (Inr ((errs @ (case e of None \<Rightarrow> [] | Some err \<Rightarrow> [err])) @ compensate_errors cevs), s')"
      "trace s' = trace s1 @ cevs" "compensated cevs = rev [0..i - 1]" "forwarded cevs = []"
      "\<forall>ev \<in> set cevs. \<exists>j e. ev = CompensateCall j e"
      "steps s' = steps s1" "currentStep s' = currentStep s1"
      "stateManager s' = stateManager s1" "store s' = store s1"
    using Suc.hyps(1) [of "i - 1" s1 "errs @ (case e of None \<Rightarrow> [] | Some err \<Rightarrow> [err])"]
    by blast
  have up: "rev [0..i] = i # rev [0..i - 1]"
    using i0 by (simp add: upto_rec2)
  have "compensate_loop i errs s =
          (Inr (errs @ compensate_errors (CompensateCall i e # cevs)), s')"
    using compensate_loop_step [OF i0 Suc.prems(2) c] IH(1) by (cases e) simp_all
  moreover have "trace s' = trace s @ CompensateCall i e # cevs"
    using IH(2) f by simp
  moreover have "compensated (CompensateCall i e # cevs) = rev [0..i]"
    using IH(3) up by simp
  moreover have "forwarded (CompensateCall i e # cevs) = []"
    using IH(4) by simp
  moreover have "\<forall>ev \<in> set (CompensateCall i e # cevs). \<exists>j e. ev = CompensateCall j e"
    using IH(5) by simp
  moreover have "steps s' = steps s \<and> currentStep s' = currentStep s \<and>
     stateManager s' = stateManager s \<and> store s' = store s"
    using IH(6-9) f by simp
  ultimately show ?case by blast
qed

lemma Compensate_shape:
  assumes "0 \<le> currentStep s" and "currentStep s < int (length (steps s))"
  shows "\<exists>s' cevs. Compensate s =
           (Inr (if compensate_errors cevs = [] then None
                 else Some (Errorf (''compensation failed with errors: '' @ format_v (compensate_errors cevs)))), s') \<and>
     trace s' = trace s @ cevs \<and>
     compensated cevs = rev [0..currentStep s] \<and> forwarded cevs = [] \<and>
     (\<forall>ev \<in> set cevs. \<exists>j e. ev = CompensateCall j e) \<and>
     steps s' = steps s \<and> currentStep s' = currentStep s \<and>
     stateManager s' = stateManager s \<and> store s' = store s"
proof -
  have "- 1 \<le> currentStep s" using assms(1) by simp
  from compensate_loop_shape [OF this assms(2), of "[]"]
  obtain s' cevs where
    L: "compensate_loop (currentStep s) [] s = (Inr ([] @ compensate_errors cevs), s')"
       "trace s' = trace s @ cevs" "compensated cevs = rev [0..currentStep s]"
       "forwarded cevs = []" "\<forall>ev \<in> set cevs. \<exists>j e. ev = CompensateCall j e"
       "steps s' = steps s" "currentStep s' = currentStep s"
       "stateManager s' = stateManager s" "store s' = store s"
    by blast
  have "Compensate s =
           (Inr (if compensate_errors cevs = [] then None
                 else Some (Errorf (''compensation failed with errors: '' @ format_v (compensate_errors cevs)))), s')"
    using L(1) by (simp add: Compensate_def)
  with L(2-9) show ?thesis by blast
qed

lemma compensate_loop_world:
  "- 1 \<le> i \<Longrightarrow> i < int (length (steps s)) \<Longrightarrow>
   trace (snd (compensate_loop i errs s)) =
     trace s @ map2 CompensateCall (rev [0..i])
       (fst (spec_compensate_each (rev (take (nat (i + 1)) (steps s))) (world s))) \<and>
   world (snd (compensate_loop i errs s)) =
     snd (spec_compensate_each (rev (take (nat (i + 1)) (steps s))) (world s))"
proof (induction "nat (i + 1)" arbitrary: i errs s)
  case 0
  then have "i < 0" by simp
  then show ?case by (simp add: compensate_loop_neg)
next
  case (Suc n)
  then have i0: "0 \<le> i" by simp
  let ?st = "steps s ! nat i"
  obtain e s1 where c: "call_ExecuteCompensate ?st i s = (e, s1)"
    by (cases "call_ExecuteCompensate ?st i s")
  note f = call_ExecuteCompensate_eq [OF c]
  let ?errs = "errs @ (case e of None \<Rightarrow> [] | Some err \<Rightarrow> [err])"
  have n: "n = nat (i - 1 + 1)" using Suc.hyps(2) by simp
  have "- 1 \<le> i - 1" using i0 by simp
  moreover have "i - 1 < int (length (steps s1))" using Suc.prems f by simp
  ultimately have IH:
    "trace (snd (compensate_loop (i - 1) ?errs s1)) =
       trace s1 @ map2 CompensateCall (rev [0..i - 1])
         (fst (spec_compensate_each (rev (take (nat (i - 1 + 1)) (steps s1))) (world s1)))"
    "world (snd (compensate_loop (i - 1) ?errs s1)) =
       snd (spec_compensate_each (rev (take (nat (i - 1 + 1)) (steps s1))) (world s1))"
    using Suc.hyps(1) [OF n, of s1 ?errs] by simp_all
  have up: "rev [0..i] = i # rev [0..i - 1]"
    using i0 by (simp add: upto_rec2)
  have ni: "nat (i + 1) = Suc (nat i)" "nat (i - 1 + 1) = nat i" using i0 by simp_all
  have lt: "nat i < length (steps s)" using i0 Suc.prems(2) by simp
  have tk: "rev (take (Suc (nat i)) (steps s)) = ?st # rev (take (nat i) (steps s))"
    using rev_take_Suc [OF lt] .
  have st: "compensate_loop i errs s = compensate_loop (i - 1) ?errs s1"
    using compensate_loop_step [OF i0 Suc.prems(2) c] .
  show ?case
    using IH f unfolding st up ni tk
    by (simp add: spec_compensate_each_Cons del: spec_compensate_each.simps(2))
qed

lemma Compensate_world:
  assumes "0 \<le> currentStep s" and "currentStep s < int (length (steps s))"
  shows "trace (snd (Compensate s)) =
     trace s @ map2 CompensateCall (rev [0..currentStep s])
       (fst (spec_compensate_each (rev (take (Suc (nat (currentStep s))) (steps s))) (world s))) \<and>
   world (snd (Compensate s)) =
     snd (spec_compensate_each (rev (take (Suc (nat (currentStep s))) (steps s))) (world s))"
proof -
  have m: "- 1 \<le> currentStep s" using assms(1) by simp
  have n: "nat (currentStep s + 1) = Suc (nat (currentStep s))" using assms(1) by simp
  obtain r s' where c: "compensate_loop (currentStep s) [] s = (r, s')"
    by (cases "compensate_loop (currentStep s) [] s")
  have "snd (Compensate s) = s'"
    using c by (simp add: Compensate_def split: sum.splits)
  then show ?thesis
    using compensate_loop_world [OF m assms(2), of "[]"] c n by simp
qed

subsection \<open>The body of the loop of Execute\<close>

lemma execute_body_cases [consumes 2, case_names read_failed skipped completed
    write_failed compensated]:
  assumes "0 \<le> currentStep s" and "currentStep s < int (length (steps s))"
  obtains
    b e s1 where
      "call_StepState (currentStep s) s = ((b, Some e), s1)"
      "execute_body s =
         (Return (Inr (Some (Wrapf e (''retrieving state for step '' @
            Name (steps s ! nat (currentStep s)))))), s1)"
  | s1 where
      "call_StepState (currentStep s) s = ((True, None), s1)"
      "execute_body s = (Continue, s1)"
  | s1 s2 s3 where
      "call_StepState (currentStep s) s = ((False, None), s1)"
      "call_ExecuteForward (steps s ! nat (currentStep s)) (currentStep s) s1 = (None, s2)"
      "call_SetStepState (currentStep s) True s2 = (None, s3)"
      "execute_body s = (Continue, s3)"
  | fe e s1 s2 s3 where
      "call_StepState (currentStep s) s = ((False, None), s1)"
      "call_ExecuteForward (steps s ! nat (currentStep s)) (currentStep s) s1 = (fe, s2)"
      "call_SetStepState (currentStep s) (fe = None) s2 = (Some e, s3)"
      "execute_body s =
         (Return (Inr (Some (Wrapf e (''setting state for step '' @
            Name (steps s ! nat (currentStep s)))))), s3)"
  | e rc s1 s2 s3 s4 where
      "call_StepState (currentStep s) s = ((False, None), s1)"
      "call_ExecuteForward (steps s ! nat (currentStep s)) (currentStep s) s1 = (Some e, s2)"
      "call_SetStepState (currentStep s) False s2 = (None, s3)"
      "Compensate s3 = (Inr rc, s4)"
      "execute_body s =
         (Return (Inr (Some (case rc of
             None \<Rightarrow> Wrapf e (''executing step '' @ Name (steps s ! nat (currentStep s)))
           | Some errComp \<Rightarrow> Wrapf errComp (''compensating after failure in step '' @
               Name (steps s ! nat (currentStep s)) @ '': '' @ Format_v e)))), s4)"
proof -
  let ?i = "currentStep s"
  let ?st = "steps s ! nat ?i"
  have ix: "index (steps s) ?i = Inr ?st"
    using assms by (simp add: index_def)
  obtain b e1 s1 where q: "call_StepState ?i s = ((b, e1), s1)"
    by (cases "call_StepState ?i s") auto
  note f1 = call_StepState_eq [OF q]
  obtain e2 s2 where x: "call_ExecuteForward ?st ?i s1 = (e2, s2)"
    by (cases "call_ExecuteForward ?st ?i s1")
  note f2 = call_ExecuteForward_eq [OF x]
  obtain e3 s3 where w: "call_SetStepState ?i (e2 = None) s2 = (e3, s3)"
    by (cases "call_SetStepState ?i (e2 = None) s2")
  note f3 = call_SetStepState_eq [OF w]
  have "0 \<le> currentStep s3" "currentStep s3 < int (length (steps s3))"
    using assms f1 f2 f3 by simp_all
  from Compensate_shape [OF this]
  obtain rc s4 where c: "Compensate s3 = (Inr rc, s4)" by blast
  show thesis
  proof (cases e1)
    case (Some e)
    with q ix have "execute_body s =
         (Return (Inr (Some (Wrapf e (''retrieving state for step '' @ Name ?st)))), s1)"
      by (simp add: execute_body_def)
    with that(1) q Some show thesis by simp
  next
    case None
    note e1 = None
    show thesis
    proof (cases b)
      case True
      with q ix e1 have "execute_body s = (Continue, s1)"
        by (simp add: execute_body_def)
      with that(2) q True e1 show thesis by simp
    next
      case False
      note b = False
      have cs1: "currentStep s1 = ?i" using f1 by simp
      have cs2: "currentStep s2 = ?i" using f1 f2 by simp
      show thesis
      proof (cases e3)
        case (Some e)
        with q ix e1 b x w cs1 cs2 have "execute_body s =
           (Return (Inr (Some (Wrapf e (''setting state for step '' @ Name ?st)))), s3)"
          by (cases e2) (simp_all add: execute_body_def)
        with that(4) q x w e1 b Some show thesis by simp
      next
        case None
        note e3 = None
        show thesis
        proof (cases e2)
          case None
          with q ix e1 b x w cs1 cs2 e3 have "execute_body s = (Continue, s3)"
            by (simp add: execute_body_def)
          with that(3) q x w e1 b e3 None show thesis by simp
        next
          case (Some e)
          with q ix e1 b x w cs1 cs2 e3 c have "execute_body s =
            (Return (Inr (Some (case rc of
               None \<Rightarrow> Wrapf e (''executing step '' @ Name ?st)
             | Some errComp \<Rightarrow> Wrapf errComp (''compensating after failure in step '' @
                 Name ?st @ '': '' @ Format_v e)))), s4)"
            by (cases rc) (simp_all add: execute_body_def)
          with that(5) q x w e1 b e3 Some c show thesis by simp
        qed
      qed
    qed
  qed
qed

subsection \<open>Every run has the shape of a run\<close>

lemma execute_loop_exit:
  "\<not> currentStep s < int (length (steps s)) \<Longrightarrow> execute_loop s = (Inr None, s)"
  by (simp add: execute_loop.simps)

lemma execute_loop_Return:
  "currentStep s < int (length (steps s)) \<Longrightarrow> execute_body s = (Return r, s') \<Longrightarrow>
   execute_loop s = (r, s')"
  by (simp add: execute_loop.simps [of s])

lemma execute_loop_Continue:
  "currentStep s < int (length (steps s)) \<Longrightarrow> execute_body s = (Continue, s') \<Longrightarrow>
   execute_loop s = execute_loop (s'\<lparr>currentStep := currentStep s' + 1\<rparr>)"
  by (simp add: execute_loop.simps [of s])

lemma execute_loop_shape:
  "0 \<le> currentStep s \<Longrightarrow>
   \<exists>evs. trace (snd (execute_loop s)) = trace s @ evs \<and>
     run_shape (stateManager s) (steps s) (currentStep s) (store s) evs (fst (execute_loop s))
       (currentStep (snd (execute_loop s))) (store (snd (execute_loop s)))
       (world s) (world (snd (execute_loop s))) \<and>
     steps (snd (execute_loop s)) = steps s \<and>
     stateManager (snd (execute_loop s)) = stateManager s"
proof (induction s rule: execute_loop.induct)
  case (1 s)
  let ?i = "currentStep s"
  let ?sm = "stateManager s"
  show ?case
  proof (cases "?i < int (length (steps s))")
    case False
    then show ?thesis
      by (simp add: execute_loop_exit rs_exit)
  next
    case True
    from "1.prems" True show ?thesis
    proof (cases rule: execute_body_cases)
      case (read_failed b e s1)
      note f1 = call_StepState_eq [OF read_failed(1)]
      have r: "StepState ?sm ?i (store s) = ((b, Some e), store s1)"
        using f1 by (simp add: prod_eq_iff)
      show ?thesis
        using execute_loop_Return [OF True read_failed(2)] f1
              rs_read_failed [OF "1.prems" True r, of "world s"]
        by simp
    next
      case (skipped s1)
      note f1 = call_StepState_eq [OF skipped(1)]
      have r: "StepState ?sm ?i (store s) = ((True, None), store s1)"
        using f1 by (simp add: prod_eq_iff)
      let ?n = "s1\<lparr>currentStep := currentStep s1 + 1\<rparr>"
      have "0 \<le> currentStep ?n" using "1.prems" f1 by simp
      from "1.IH" [OF True skipped(2) [symmetric] refl this]
      obtain evs where IH: "trace (snd (execute_loop ?n)) = trace ?n @ evs"
        "run_shape (stateManager ?n) (steps ?n) (currentStep ?n) (store ?n) evs
           (fst (execute_loop ?n)) (currentStep (snd (execute_loop ?n)))
           (store (snd (execute_loop ?n))) (world ?n) (world (snd (execute_loop ?n)))"
        "steps (snd (execute_loop ?n)) = steps ?n"
        "stateManager (snd (execute_loop ?n)) = stateManager ?n"
        by blast
      have "run_shape ?sm (steps s) ?i (store s) (StepStateCall ?i True None # evs)
              (fst (execute_loop ?n)) (currentStep (snd (execute_loop ?n)))
              (store (snd (execute_loop ?n))) (world s) (world (snd (execute_loop ?n)))"
        using rs_skipped [OF "1.prems" True r, of evs] IH(2) f1 by simp
      then show ?thesis
        using execute_loop_Continue [OF True skipped(2)] IH(1,3,4) f1 by simp
    next
      case (completed s1 s2 s3)
      note f1 = call_StepState_eq [OF completed(1)]
      note f2 = call_ExecuteForward_eq [OF completed(2)]
      note f3 = call_SetStepState_eq [OF completed(3)]
      have r: "StepState ?sm ?i (store s) = ((False, None), store s1)"
        using f1 by (simp add: prod_eq_iff)
      have w: "SetStepState ?sm ?i True (store s1) = (None, store s3)"
        using f1 f2 f3 by (simp add: prod_eq_iff)
      let ?n = "s3\<lparr>currentStep := currentStep s3 + 1\<rparr>"
      have "0 \<le> currentStep ?n" using "1.prems" f1 f2 f3 by simp
      from "1.IH" [OF True completed(4) [symmetric] refl this]
      obtain evs where IH: "trace (snd (execute_loop ?n)) = trace ?n @ evs"
        "run_shape (stateManager ?n) (steps ?n) (currentStep ?n) (store ?n) evs
           (fst (execute_loop ?n)) (currentStep (snd (execute_loop ?n)))
           (store (snd (execute_loop ?n))) (world ?n) (world (snd (execute_loop ?n)))"
        "steps (snd (execute_loop ?n)) = steps ?n"
        "stateManager (snd (execute_loop ?n)) = stateManager ?n"
        by blast
      have "run_shape ?sm (steps s) ?i (store s)
              (StepStateCall ?i False None # ForwardCall ?i None # SetStepStateCall ?i True None # evs)
              (fst (execute_loop ?n)) (currentStep (snd (execute_loop ?n)))
              (store (snd (execute_loop ?n))) (world s) (world (snd (execute_loop ?n)))"
        using rs_completed [OF "1.prems" True r w, of evs _ _ _ "world s"] IH(2) f1 f2 f3 by simp
      then show ?thesis
        using execute_loop_Continue [OF True completed(4)] IH(1,3,4) f1 f2 f3 by simp
    next
      case (write_failed fe e s1 s2 s3)
      note f1 = call_StepState_eq [OF write_failed(1)]
      note f2 = call_ExecuteForward_eq [OF write_failed(2)]
      note f3 = call_SetStepState_eq [OF write_failed(3)]
      have r: "StepState ?sm ?i (store s) = ((False, None), store s1)"
        using f1 by (simp add: prod_eq_iff)
      have w: "SetStepState ?sm ?i (fe = None) (store s1) = (Some e, store s3)"
        using f1 f2 f3 by (simp add: prod_eq_iff)
      show ?thesis
        using execute_loop_Return [OF True write_failed(4)] f1 f2 f3
              rs_write_failed [OF "1.prems" True r w, of "world s"]
        by simp
    next
      case (compensated e rc s1 s2 s3 s4)
      note f1 = call_StepState_eq [OF compensated(1)]
      note f2 = call_ExecuteForward_eq [OF compensated(2)]
      note f3 = call_SetStepState_eq [OF compensated(3)]
      have r: "StepState ?sm ?i (store s) = ((False, None), store s1)"
        using f1 by (simp add: prod_eq_iff)
      have w: "SetStepState ?sm ?i False (store s1) = (None, store s3)"
        using f1 f2 f3 by (simp add: prod_eq_iff)
      have "0 \<le> currentStep s3" "currentStep s3 < int (length (steps s3))"
        using "1.prems" True f1 f2 f3 by simp_all
      from Compensate_shape [OF this] compensated(4)
      obtain cevs where C:
        "rc = (if compensate_errors cevs = [] then None
               else Some (Errorf (''compensation failed with errors: '' @ format_v (compensate_errors cevs))))"
        "trace s4 = trace s3 @ cevs" "compensated cevs = rev [0..currentStep s3]"
        "forwarded cevs = []" "\<forall>ev \<in> set cevs. \<exists>j e. ev = CompensateCall j e"
        "steps s4 = steps s3" "currentStep s4 = currentStep s3"
        "stateManager s4 = stateManager s3" "store s4 = store s3"
        by auto
      have cs3: "currentStep s3 = ?i" using f1 f2 f3 by simp
      have W: "trace s4 =
          trace s3 @ map2 CompensateCall (rev [0..?i])
            (fst (spec_compensate_each (rev (take (Suc (nat ?i)) (steps s))) (world s3)))"
        "world s4 = snd (spec_compensate_each (rev (take (Suc (nat ?i)) (steps s))) (world s3))"
        using Compensate_world [OF \<open>0 \<le> currentStep s3\<close> \<open>currentStep s3 < int (length (steps s3))\<close>]
          compensated(4) cs3 f1 f2 f3 by simp_all
      have w3: "world s3 = snd (forward (steps s ! nat ?i) (world s))"
        and fw: "fst (forward (steps s ! nat ?i) (world s)) = Some e"
        using f1 f2 f3 by simp_all
      have ce: "spec_compensate_each (rev (take (Suc (nat ?i)) (steps s)))
            (snd (forward (steps s ! nat ?i) (world s))) =
          (fst (spec_compensate_each (rev (take (Suc (nat ?i)) (steps s))) (world s3)), world s4)"
        using W(2) w3 by (simp add: prod_eq_iff)
      have cv: "cevs = map2 CompensateCall (rev [0..?i])
            (fst (spec_compensate_each (rev (take (Suc (nat ?i)) (steps s))) (world s3)))"
        using W(1) C(2) by simp
      have "run_shape ?sm (steps s) ?i (store s)
         (StepStateCall ?i False None # ForwardCall ?i (Some e) # SetStepStateCall ?i False None # cevs)
         (Inr (Some (case rc of
             None \<Rightarrow> Wrapf e (''executing step '' @ Name (steps s ! nat ?i))
           | Some errComp \<Rightarrow> Wrapf errComp (''compensating after failure in step '' @
               Name (steps s ! nat ?i) @ '': '' @ Format_v e)))) ?i (store s4) (world s) (world s4)"
        using rs_compensated [OF "1.prems" True r w _ _ _ fw ce cv] C(1,3,4,5,9) cs3
        by (cases "compensate_errors cevs = []") simp_all
      then show ?thesis
        using execute_loop_Return [OF True compensated(5)] f1 f2 f3 C(2,6,7,8) by simp
    qed
  qed
qed

lemma Execute_shape:
  "\<exists>evs. trace (snd (Execute s)) = trace s @ evs \<and>
     run_shape (stateManager s) (steps s) 0 (store s) evs (fst (Execute s))
       (currentStep (snd (Execute s))) (store (snd (Execute s)))
       (world s) (world (snd (Execute s))) \<and>
     steps (snd (Execute s)) = steps s \<and>
     stateManager (snd (Execute s)) = stateManager s"
  using execute_loop_shape [of "s\<lparr>currentStep := 0\<rparr>"] by (simp add: Execute_def)

lemma Execute_run:
  "run_shape (stateManager s) (steps s) 0 (store s) (events s (snd (Execute s)))
     (fst (Execute s)) (currentStep (snd (Execute s))) (store (snd (Execute s)))
     (world s) (world (snd (Execute s)))"
  using Execute_shape [of s] by (auto simp: events_def)

subsection \<open>State managers\<close>

lemma InMemory_store_contract: "store_contract InMemory InMemory_recorded"
  by (auto simp: store_contract_def InMemory_def InMemory_recorded_def fun_eq_iff
        InMemory_StepState_def InMemory_SetStepState_def split: option.splits)

lemma InMemory_writes_succeed: "writes_succeed InMemory"
  by (simp add: writes_succeed_def InMemory_def InMemory_SetStepState_def)

lemma InMemory_reads_succeed: "reads_succeed InMemory"
  by (simp add: reads_succeed_def InMemory_def InMemory_StepState_def split: option.splits)

lemma store_contract_read:
  "store_contract sm recorded \<Longrightarrow> StepState sm i st = ((b, None), st1) \<Longrightarrow>
   recorded st1 = recorded st \<and> recorded st i = b"
  unfolding store_contract_def by (metis fst_conv snd_conv)

lemma store_contract_read_any:
  "store_contract sm recorded \<Longrightarrow> StepState sm i st = (r, st1) \<Longrightarrow> recorded st1 = recorded st"
  unfolding store_contract_def by (metis snd_conv)

lemma store_contract_write:
  "store_contract sm recorded \<Longrightarrow> SetStepState sm i b st = (None, st1) \<Longrightarrow>
   recorded st1 = (recorded st)(i := b)"
  unfolding store_contract_def by (metis fst_conv snd_conv)

subsection \<open>What the shape of a run gives\<close>

lemma first_failed_forward_simps [simp]:
  "first_failed_forward [] = None"
  "first_failed_forward (ForwardCall i (Some e) # evs) = Some i"
  "first_failed_forward (ForwardCall i None # evs) = first_failed_forward evs"
  "first_failed_forward (CompensateCall i e' # evs) = first_failed_forward evs"
  "first_failed_forward (StepStateCall i b e' # evs) = first_failed_forward evs"
  "first_failed_forward (SetStepStateCall i b e' # evs) = first_failed_forward evs"
  by (simp_all add: first_failed_forward_def)

lemma only_compensations_first_failed_forward:
  "\<forall>ev \<in> set cevs. \<exists>j e. ev = CompensateCall j e \<Longrightarrow> first_failed_forward cevs = None"
  by (induction cevs) auto

lemma only_compensations_compensated:
  "\<forall>ev \<in> set cevs. \<exists>j e. ev = CompensateCall j e \<Longrightarrow> length (compensated cevs) = length cevs"
  by (induction cevs) auto

lemma run_shape_failed_forward:
  assumes "run_shape sm sts i st evs r c st' w0 w1" and "writes_succeed sm"
    and "first_failed_forward evs = Some k"
  shows "(\<exists>err. r = Inr (Some err)) \<and> compensated evs = rev [0..k] \<and>
         (\<forall>j \<in> set (forwarded evs). j \<le> k) \<and> i \<le> k \<and> k < int (length sts) \<and> c = k"
  using assms
proof (induction rule: run_shape.induct)
  case (rs_write_failed i st st1 fe e st2 w)
  from rs_write_failed.hyps(4) rs_write_failed.prems(1) have False
    by (simp add: writes_succeed_def) (metis fst_conv option.distinct(1))
  then show ?case ..
next
  case (rs_compensated i st st1 st2 cevs w e rs w')
  then show ?case
    by (auto simp: only_compensations_first_failed_forward)
qed (auto split: if_splits)

lemma run_shape_all_succeed:
  assumes "run_shape sm sts i st evs r c st' w0 w1" and "store_contract sm recorded"
    and "reads_succeed sm" and "writes_succeed sm"
    and "first_failed_forward evs = None"
    and "\<forall>j. 0 \<le> j \<and> j < i \<longrightarrow> recorded st j" and "i \<le> int (length sts)"
  shows "r = Inr None \<and> compensated evs = [] \<and> c = int (length sts) \<and>
         (\<forall>j. 0 \<le> j \<and> j < int (length sts) \<longrightarrow> recorded st' j)"
  using assms
proof (induction rule: run_shape.induct)
  case (rs_exit i st w)
  then show ?case by auto
next
  case (rs_skipped i st st1 evs r c st' w w')
  from store_contract_read [OF rs_skipped.prems(1) rs_skipped.hyps(3)]
  have "recorded st1 = recorded st" "recorded st i" by simp_all
  with rs_skipped.prems(5) have "\<forall>j. 0 \<le> j \<and> j < i + 1 \<longrightarrow> recorded st1 j"
    by (metis zle_add1_eq_le zless_add1_eq order_le_less)
  with rs_skipped show ?case by simp
next
  case (rs_completed i st st1 st2 evs r c st' w w')
  from store_contract_read [OF rs_completed.prems(1) rs_completed.hyps(3)]
       store_contract_write [OF rs_completed.prems(1) rs_completed.hyps(4)]
  have "recorded st2 = (recorded st)(i := True)" by simp
  with rs_completed.prems(5) have "\<forall>j. 0 \<le> j \<and> j < i + 1 \<longrightarrow> recorded st2 j"
    by auto
  with rs_completed show ?case by simp
next
  case (rs_read_failed i st b e st1 w)
  from rs_read_failed.hyps(3) rs_read_failed.prems(2) have False
    by (simp add: reads_succeed_def) (metis fst_conv snd_conv option.distinct(1))
  then show ?case ..
next
  case (rs_write_failed i st st1 fe e st2 w)
  from rs_write_failed.hyps(4) rs_write_failed.prems(3) have False
    by (simp add: writes_succeed_def) (metis fst_conv option.distinct(1))
  then show ?case ..
next
  case (rs_compensated i st st1 st2 cevs w e rs w')
  then show ?case by simp
qed

lemma run_shape_records:
  assumes "run_shape sm sts i st evs r c st' w0 w1" and "store_contract sm recorded"
    and "writes_succeed sm"
    and "\<forall>j. 0 \<le> j \<and> j < i \<longrightarrow> recorded st j"
  shows "(\<forall>j. 0 \<le> j \<and> j < c \<longrightarrow> recorded st' j) \<and>
         (\<forall>k. first_failed_forward evs = Some k \<longrightarrow> \<not> recorded st' k)"
  using assms
proof (induction rule: run_shape.induct)
  case (rs_exit i st w)
  then show ?case by auto
next
  case (rs_skipped i st st1 evs r c st' w w')
  from store_contract_read [OF rs_skipped.prems(1) rs_skipped.hyps(3)]
  have "recorded st1 = recorded st" "recorded st i" by simp_all
  with rs_skipped.prems(3) have "\<forall>j. 0 \<le> j \<and> j < i + 1 \<longrightarrow> recorded st1 j"
    by (metis zle_add1_eq_le zless_add1_eq order_le_less)
  with rs_skipped show ?case by simp
next
  case (rs_completed i st st1 st2 evs r c st' w w')
  from store_contract_read [OF rs_completed.prems(1) rs_completed.hyps(3)]
       store_contract_write [OF rs_completed.prems(1) rs_completed.hyps(4)]
  have "recorded st2 = (recorded st)(i := True)" by simp
  with rs_completed.prems(3) have "\<forall>j. 0 \<le> j \<and> j < i + 1 \<longrightarrow> recorded st2 j"
    by auto
  with rs_completed show ?case by simp
next
  case (rs_read_failed i st b e st1 w)
  from store_contract_read_any [OF rs_read_failed.prems(1) rs_read_failed.hyps(3)]
  have "recorded st1 = recorded st" .
  with rs_read_failed show ?case by simp
next
  case (rs_write_failed i st st1 fe e st2 w)
  from rs_write_failed.hyps(4) rs_write_failed.prems(2) have False
    by (simp add: writes_succeed_def) (metis fst_conv option.distinct(1))
  then show ?case ..
next
  case (rs_compensated i st st1 st2 cevs w e rs w')
  from store_contract_read [OF rs_compensated.prems(1) rs_compensated.hyps(3)]
       store_contract_write [OF rs_compensated.prems(1) rs_compensated.hyps(4)]
  have "recorded st2 = (recorded st)(i := False)" by simp
  with rs_compensated show ?case by simp
qed

lemma run_shape_forwarded_not_recorded:
  assumes "run_shape sm sts i st evs r c st' w0 w1" and "store_contract sm recorded"
  shows "\<forall>j \<in> set (forwarded evs). i \<le> j \<and> \<not> recorded st j"
  using assms
proof (induction rule: run_shape.induct)
  case (rs_exit i st w)
  then show ?case by simp
next
  case (rs_skipped i st st1 evs r c st' w w')
  from store_contract_read [OF rs_skipped.prems(1) rs_skipped.hyps(3)]
  have "recorded st1 = recorded st" by simp
  with rs_skipped show ?case by fastforce
next
  case (rs_completed i st st1 st2 evs r c st' w w')
  from store_contract_read [OF rs_completed.prems(1) rs_completed.hyps(3)]
       store_contract_write [OF rs_completed.prems(1) rs_completed.hyps(4)]
  have "recorded st2 = (recorded st)(i := True)" "\<not> recorded st i" by simp_all
  with rs_completed show ?case by fastforce
next
  case (rs_read_failed i st b e st1 w)
  then show ?case by simp
next
  case (rs_write_failed i st st1 fe e st2 w)
  from store_contract_read [OF rs_write_failed.prems(1) rs_write_failed.hyps(3)]
  show ?case by simp
next
  case (rs_compensated i st st1 st2 cevs w e rs w')
  from store_contract_read [OF rs_compensated.prems(1) rs_compensated.hyps(3)]
  show ?case using rs_compensated.hyps(6) by simp
qed

lemma run_shape_write_failed:
  assumes "run_shape sm sts i st evs r c st' w0 w1"
    and "SetStepStateCall j b (Some e) \<in> set evs"
  shows "r = Inr (Some (Wrapf e (''setting state for step '' @ Name (sts ! nat j)))) \<and>
         compensated evs = [] \<and> last evs = SetStepStateCall j b (Some e) \<and>
         0 \<le> j \<and> j < int (length sts) \<and> c = j"
  using assms
proof (induction rule: run_shape.induct)
  case (rs_skipped i st st1 evs r c st' w w')
  then have "evs \<noteq> []" by auto
  with rs_skipped show ?case by auto
next
  case (rs_completed i st st1 st2 evs r c st' w w')
  then have "evs \<noteq> []" by auto
  with rs_completed show ?case by auto
qed auto

lemma run_shape_read_failed:
  assumes "run_shape sm sts i st evs r c st' w0 w1"
    and "StepStateCall j b (Some e) \<in> set evs"
  shows "r = Inr (Some (Wrapf e (''retrieving state for step '' @ Name (sts ! nat j)))) \<and>
         compensated evs = [] \<and> last evs = StepStateCall j b (Some e) \<and>
         (\<forall>m \<in> set (forwarded evs). m < j) \<and>
         i \<le> j \<and> j < int (length sts) \<and> c = j"
  using assms
proof (induction rule: run_shape.induct)
  case (rs_skipped i st st1 evs r c st' w w')
  then have "evs \<noteq> []" by auto
  with rs_skipped show ?case by auto
next
  case (rs_completed i st st1 st2 evs r c st' w w')
  then have "evs \<noteq> []" by auto
  with rs_completed show ?case by auto
qed auto

lemma run_shape_forward_failed:
  assumes "run_shape sm sts i st evs r c st' w0 w1" and "writes_succeed sm"
    and "ForwardCall k (Some e) \<in> set evs"
  shows "r = Inr (Some (if compensate_errors evs = []
                   then Wrapf e (''executing step '' @ Name (sts ! nat k))
                   else Wrapf (Errorf (''compensation failed with errors: '' @ format_v (compensate_errors evs)))
                          (''compensating after failure in step '' @ Name (sts ! nat k) @ '': '' @ Format_v e)))"
  using assms
proof (induction rule: run_shape.induct)
  case (rs_write_failed i st st1 fe e' st2 w)
  from rs_write_failed.hyps(4) rs_write_failed.prems(1) have False
    by (simp add: writes_succeed_def) (metis fst_conv option.distinct(1))
  then show ?case ..
next
  case (rs_compensated i st st1 st2 cevs w e' rs w')
  from rs_compensated.hyps(7) rs_compensated.prems(2) have "k = i \<and> e = e'" by auto
  then show ?case by simp
qed auto

lemma run_shape_success:
  assumes "run_shape sm sts i st evs r c st' w0 w1" and "r = Inr None" and "i \<le> int (length sts)"
  shows "c = int (length sts)"
  using assms by (induction rule: run_shape.induct) auto

lemma rev_upto_split:
  assumes "xs @ j # ys = rev [0..c]"
  shows "ys = rev [0..j - 1]"
proof -
  have "j \<in> set (rev [0..c])" using assms [symmetric] by simp
  then have j: "0 \<le> j" "j \<le> c" by simp_all
  have "[0..c] = [0..j - 1] @ j # [j + 1..c]"
    using j by (simp add: upto_split3)
  moreover have "[0..c] = rev ys @ j # rev xs"
    using arg_cong [OF assms, of rev] by simp
  moreover have "j \<notin> set [0..j - 1]" "j \<notin> set [j + 1..c]" by simp_all
  ultimately have "rev ys = [0..j - 1]"
    by (metis append_Cons_eq_iff)
  then show ?thesis by (metis rev_rev_ident)
qed

lemma loop_head_completed_below:
  assumes "loop_head s t" and "store_contract (stateManager s) recorded"
  shows "0 \<le> currentStep t \<and> stateManager t = stateManager s \<and> completed_below recorded t"
  using assms
proof (induction rule: loop_head.induct)
  case lh_enter
  show ?case by (auto simp: completed_below_def)
next
  case (lh_next t t')
  then have t: "0 \<le> currentStep t" "stateManager t = stateManager s"
    "\<forall>i. 0 \<le> i \<and> i < currentStep t \<longrightarrow> recorded (store t) i"
    by (simp_all add: completed_below_def)
  note sc = lh_next.prems
  from t(1) lh_next.hyps(2) show ?case
  proof (cases rule: execute_body_cases)
    case (skipped s1)
    note f1 = call_StepState_eq [OF skipped(1)]
    have "StepState (stateManager s) (currentStep t) (store t) = ((True, None), store s1)"
      using f1 t(2) by (simp add: prod_eq_iff)
    from store_contract_read [OF sc this]
    have "recorded (store s1) = recorded (store t)" "recorded (store t) (currentStep t)"
      by simp_all
    moreover have "t' = s1" using skipped(2) lh_next.hyps(3) by simp
    moreover have "\<forall>i. 0 \<le> i \<and> i < currentStep t + 1 \<longrightarrow> recorded (store t) i"
      using t(3) \<open>recorded (store t) (currentStep t)\<close>
      by (metis zle_add1_eq_le zless_add1_eq order_le_less)
    ultimately show ?thesis using f1 t by (simp add: completed_below_def)
  next
    case (completed s1 s2 s3)
    note f1 = call_StepState_eq [OF completed(1)]
    note f2 = call_ExecuteForward_eq [OF completed(2)]
    note f3 = call_SetStepState_eq [OF completed(3)]
    have "StepState (stateManager s) (currentStep t) (store t) = ((False, None), store s1)"
      using f1 t(2) by (simp add: prod_eq_iff)
    moreover have "SetStepState (stateManager s) (currentStep t) True (store s1) = (None, store s3)"
      using f1 f2 f3 t(2) by (simp add: prod_eq_iff)
    ultimately have "recorded (store s3) = (recorded (store t))(currentStep t := True)"
      using store_contract_read [OF sc] store_contract_write [OF sc] by simp
    moreover have "t' = s3" using completed(4) lh_next.hyps(3) by simp
    ultimately show ?thesis using f1 f2 f3 t by (auto simp: completed_below_def)
  next
    case (read_failed b e s1)
    with lh_next.hyps(3) show ?thesis by simp
  next
    case (write_failed fe e s1 s2 s3)
    with lh_next.hyps(3) show ?thesis by simp
  next
    case (compensated e rc s1 s2 s3 s4)
    with lh_next.hyps(3) show ?thesis by simp
  qed
qed

lemma run_shape_false_before_compensation:
  assumes "run_shape sm sts i st evs r c st' w0 w1" and "writes_succeed sm"
    and "first_failed_forward evs = Some k"
  shows "\<exists>pre e cevs. evs = pre @ ForwardCall k (Some e) # SetStepStateCall k False None # cevs \<and>
           compensated pre = []"
  using assms
proof (induction rule: run_shape.induct)
  case (rs_skipped i st st1 evs r c st' w w')
  then obtain pre e cevs where
    "evs = pre @ ForwardCall k (Some e) # SetStepStateCall k False None # cevs" "compensated pre = []"
    by auto
  then have "StepStateCall i True None # evs =
      (StepStateCall i True None # pre) @ ForwardCall k (Some e) # SetStepStateCall k False None # cevs \<and>
      compensated (StepStateCall i True None # pre) = []" by simp
  then show ?case by blast
next
  case (rs_completed i st st1 st2 evs r c st' w w')
  then obtain pre e cevs where
    "evs = pre @ ForwardCall k (Some e) # SetStepStateCall k False None # cevs" "compensated pre = []"
    by auto
  then have "StepStateCall i False None # ForwardCall i None # SetStepStateCall i True None # evs =
      (StepStateCall i False None # ForwardCall i None # SetStepStateCall i True None # pre) @
        ForwardCall k (Some e) # SetStepStateCall k False None # cevs \<and>
      compensated (StepStateCall i False None # ForwardCall i None # SetStepStateCall i True None # pre) = []"
    by simp
  then show ?case by blast
next
  case (rs_write_failed i st st1 fe e st2 w)
  from rs_write_failed.hyps(4) rs_write_failed.prems(1) have False
    by (simp add: writes_succeed_def) (metis fst_conv option.distinct(1))
  then show ?case ..
next
  case (rs_compensated i st st1 st2 cevs w e rs w')
  then have "k = i" by simp
  then have "StepStateCall i False None # ForwardCall i (Some e) # SetStepStateCall i False None # cevs =
     [StepStateCall i False None] @ ForwardCall k (Some e) # SetStepStateCall k False None # cevs \<and>
     compensated [StepStateCall i False None] = []" by simp
  then show ?case by blast
qed auto

lemma run_shape_currentStep:
  assumes "run_shape sm sts i st evs r c st' w0 w1"
  shows "i \<le> c \<and> (i \<le> int (length sts) \<longrightarrow> c \<le> int (length sts))"
  using assms by (induction rule: run_shape.induct) auto

lemma Compensate_neg: "currentStep s < 0 \<Longrightarrow> Compensate s = (Inr None, s)"
  by (simp add: Compensate_def compensate_loop_neg)

lemma Compensate_out_of_range:
  "int (length (steps s)) \<le> currentStep s \<Longrightarrow>
   Compensate s = (Inl (IndexOutOfRange (currentStep s) (length (steps s))), s)"
  by (simp add: Compensate_def compensate_loop_out_of_range)

lemma events_self [simp]: "events s s = []"
  by (simp add: events_def)

text \<open>
  The two lemmas \<open>forward_actions_succeed_in_run\<close> and \<open>first_failure_in_run\<close>
  relate what the steps of a saga do on every world to what a run logs: if the forward
  action of every step returns \<^verbatim>\<open>nil\<close> on every world, no forward call of a run fails;
  and on a state manager that keeps its promise, whose methods return no error and
  that holds no success record, if the forward actions of the steps below \<open>k\<close>
  return \<^verbatim>\<open>nil\<close> on every world and the one of step \<open>k\<close> an error on every world,
  the first forward call that fails in a run is the one of step \<open>k\<close>.
\<close>

lemma first_failed_forward_mem:
  "first_failed_forward evs = Some k \<Longrightarrow> \<exists>e. ForwardCall k (Some e) \<in> set evs"
proof (induction evs)
  case Nil
  then show ?case by simp
next
  case (Cons ev evs)
  show ?case
  proof (cases ev)
    case (ForwardCall i r)
    with Cons show ?thesis by (cases r) auto
  qed (use Cons in auto)
qed

lemma run_shape_forward_outcome:
  assumes "run_shape sm sts i st evs r c st' w0 w1" and "ForwardCall j fe \<in> set evs"
  shows "0 \<le> j \<and> j < int (length sts) \<and> (\<exists>w. fst (forward (sts ! nat j) w) = fe)"
  using assms by (induction rule: run_shape.induct) auto

lemma forward_actions_succeed_in_run:
  assumes "\<forall>st \<in> set (steps s). \<forall>w. fst (forward st w) = None"
  shows "first_failed_forward (events s (snd (Execute s))) = None"
proof (rule ccontr)
  assume "first_failed_forward (events s (snd (Execute s))) \<noteq> None"
  then obtain k where "first_failed_forward (events s (snd (Execute s))) = Some k" by auto
  from first_failed_forward_mem [OF this]
  obtain e where "ForwardCall k (Some e) \<in> set (events s (snd (Execute s)))" by blast
  from run_shape_forward_outcome [OF Execute_run this]
  obtain w where k: "0 \<le> k" "k < int (length (steps s))"
    and "fst (forward (steps s ! nat k) w) = Some e" by blast
  moreover have "steps s ! nat k \<in> set (steps s)" using k by simp
  ultimately show False using assms by fastforce
qed

lemma run_shape_first_failure:
  assumes "run_shape sm sts i st evs r c st' w0 w1" and "store_contract sm recorded"
    and "reads_succeed sm" and "writes_succeed sm"
    and "\<forall>j. i \<le> j \<longrightarrow> \<not> recorded st j"
    and "i \<le> k" and "k < int (length sts)"
    and "\<forall>j. i \<le> j \<and> j < k \<longrightarrow> (\<forall>w. fst (forward (sts ! nat j) w) = None)"
    and "\<forall>w. fst (forward (sts ! nat k) w) \<noteq> None"
  shows "first_failed_forward evs = Some k"
  using assms
proof (induction rule: run_shape.induct)
  case (rs_exit i st w)
  then show ?case by simp
next
  case (rs_skipped i st st1 evs r c st' w w')
  from store_contract_read [OF rs_skipped.prems(1) rs_skipped.hyps(3)] rs_skipped.prems(4)
  have False by auto
  then show ?case ..
next
  case (rs_completed i st st1 st2 evs r c st' w w')
  from store_contract_read [OF rs_completed.prems(1) rs_completed.hyps(3)]
       store_contract_write [OF rs_completed.prems(1) rs_completed.hyps(4)]
  have rec: "recorded st2 = (recorded st)(i := True)" by simp
  have "i \<noteq> k" using rs_completed.hyps(6) rs_completed.prems(8) by fastforce
  with rs_completed.prems(5) have ik: "i + 1 \<le> k" by simp
  have "\<forall>j. i + 1 \<le> j \<longrightarrow> \<not> recorded st2 j"
    using rec rs_completed.prems(4) by auto
  moreover have "\<forall>j. i + 1 \<le> j \<and> j < k \<longrightarrow> (\<forall>w. fst (forward (sts ! nat j) w) = None)"
    using rs_completed.prems(7) by auto
  ultimately have "first_failed_forward evs = Some k"
    using rs_completed.IH rs_completed.prems(1,2,3,6,8) ik by blast
  then show ?case by simp
next
  case (rs_read_failed i st b e st1 w)
  from rs_read_failed.hyps(3) rs_read_failed.prems(2) have False
    by (simp add: reads_succeed_def) (metis fst_conv snd_conv option.distinct(1))
  then show ?case ..
next
  case (rs_write_failed i st st1 fe e st2 w)
  from rs_write_failed.hyps(4) rs_write_failed.prems(3) have False
    by (simp add: writes_succeed_def) (metis fst_conv option.distinct(1))
  then show ?case ..
next
  case (rs_compensated i st st1 st2 cevs w e rs w')
  have "\<not> i < k"
  proof
    assume "i < k"
    with rs_compensated.prems(7) have "fst (forward (sts ! nat i) w) = None" by auto
    with rs_compensated.hyps(8) show False by simp
  qed
  with rs_compensated.prems(5) have "i = k" by simp
  then show ?case by simp
qed

lemma first_failure_in_run:
  assumes "store_contract (stateManager s) recorded"
    and "reads_succeed (stateManager s)" and "writes_succeed (stateManager s)"
    and "\<forall>j. \<not> recorded (store s) j"
    and "0 \<le> k" and "k < int (length (steps s))"
    and "\<forall>j. 0 \<le> j \<and> j < k \<longrightarrow> (\<forall>w. fst (forward (steps s ! nat j) w) = None)"
    and "\<forall>w. fst (forward (steps s ! nat k) w) \<noteq> None"
  shows "first_failed_forward (events s (snd (Execute s))) = Some k"
  using run_shape_first_failure [OF Execute_run assms(1,2,3) _ assms(5,6,7,8)] assms(4)
  by blast

lemma spec_forward_until_failure_Cons:
  "spec_forward_until_failure (st # sts) w =
     (if fst (forward st w) = None
      then (case spec_forward_until_failure sts (snd (forward st w)) of (k, r, w2) \<Rightarrow> (Suc k, r, w2))
      else (0, fst (forward st w), snd (forward st w)))"
  by (auto split: prod.splits option.splits)

lemma spec_forward_until_failure_length:
  "spec_forward_until_failure sts w = (k, Some e, w') \<Longrightarrow> k < length sts"
proof (induction sts arbitrary: w k)
  case Nil
  then show ?case by simp
next
  case (Cons st sts)
  show ?case
  proof (cases "fst (forward st w) = None")
    case True
    with Cons.prems obtain k' where "k = Suc k'"
      "spec_forward_until_failure sts (snd (forward st w)) = (k', Some e, w')"
      by (auto simp: spec_forward_until_failure_Cons simp del: spec_forward_until_failure.simps
            split: prod.splits)
    with Cons.IH show ?thesis by auto
  next
    case False
    with Cons.prems show ?thesis
      by (simp add: spec_forward_until_failure_Cons del: spec_forward_until_failure.simps)
  qed
qed

lemma run_shape_first_failure_world:
  assumes "run_shape sm sts i st evs r c st' w0 w1" and "store_contract sm recorded"
    and "reads_succeed sm" and "writes_succeed sm"
    and "\<forall>j. i \<le> j \<longrightarrow> \<not> recorded st j" and "0 \<le> i"
    and "spec_forward_until_failure (drop (nat i) sts) w0 = (k, Some e, w)"
  shows "(\<exists>err. r = Inr (Some err)) \<and>
         first_failed_forward evs = Some (i + int k) \<and>
         forwarded evs = [i..i + int k] \<and>
         compensated evs = rev [0..i + int k] \<and>
         compensations evs =
           zip (rev [0..i + int k]) (fst (spec_compensate_each (rev (take (Suc (nat i + k)) sts)) w)) \<and>
         w1 = snd (spec_compensate_each (rev (take (Suc (nat i + k)) sts)) w)"
  using assms
proof (induction arbitrary: k rule: run_shape.induct)
  case (rs_exit i st w0)
  then have "drop (nat i) sts = []" by simp
  with rs_exit.prems(6) show ?case by simp
next
  case (rs_skipped i st st1 evs r c st' w0 w')
  from store_contract_read [OF rs_skipped.prems(1) rs_skipped.hyps(3)] rs_skipped.prems(4)
  have False by auto
  then show ?case ..
next
  case (rs_completed i st st1 st2 evs r c st' w0 w')
  let ?st = "sts ! nat i"
  have lt: "nat i < length sts" using rs_completed.hyps(1,2) by simp
  have dr: "drop (nat i) sts = ?st # drop (nat (i + 1)) sts"
    using Cons_nth_drop_Suc [OF lt] rs_completed.hyps(1) by (simp add: nat_add_distrib)
  from rs_completed.prems(6) rs_completed.hyps(6) obtain k' where k: "k = Suc k'"
    and f: "spec_forward_until_failure (drop (nat (i + 1)) sts) (snd (forward ?st w0)) = (k', Some e, w)"
    unfolding dr
    by (auto simp: spec_forward_until_failure_Cons simp del: spec_forward_until_failure.simps
          split: prod.splits)
  from store_contract_read [OF rs_completed.prems(1) rs_completed.hyps(3)]
       store_contract_write [OF rs_completed.prems(1) rs_completed.hyps(4)]
  have "recorded st2 = (recorded st)(i := True)" by simp
  with rs_completed.prems(4) have nr: "\<forall>j. i + 1 \<le> j \<longrightarrow> \<not> recorded st2 j" by auto
  have i1: "0 \<le> i + 1" using rs_completed.hyps(1) by simp
  note IH = rs_completed.IH [OF rs_completed.prems(1,2,3) nr i1 f]
  have e1: "i + 1 + int k' = i + int k" using k by simp
  have e2: "Suc (nat (i + 1) + k') = Suc (nat i + k)"
    using k rs_completed.hyps(1) by (simp add: nat_add_distrib)
  have up: "[i..i + int k] = i # [i + 1..i + int k]"
    by (simp add: upto_rec1)
  show ?case
    using IH unfolding e1 e2 up by simp
next
  case (rs_read_failed i st b e' st1 w0)
  from rs_read_failed.hyps(3) rs_read_failed.prems(2) have False
    by (simp add: reads_succeed_def) (metis fst_conv snd_conv option.distinct(1))
  then show ?case ..
next
  case (rs_write_failed i st st1 fe e' st2 w0)
  from rs_write_failed.hyps(4) rs_write_failed.prems(3) have False
    by (simp add: writes_succeed_def) (metis fst_conv option.distinct(1))
  then show ?case ..
next
  case (rs_compensated i st st1 st2 cevs w0 e' rs w')
  let ?st = "sts ! nat i"
  have lt: "nat i < length sts" using rs_compensated.hyps(1,2) by simp
  have dr: "drop (nat i) sts = ?st # drop (Suc (nat i)) sts"
    using Cons_nth_drop_Suc [OF lt] by simp
  from rs_compensated.prems(6) rs_compensated.hyps(8)
  have k: "k = 0" "e = e'" "w = snd (forward ?st w0)"
    unfolding dr
    by (simp_all add: spec_forward_until_failure_Cons del: spec_forward_until_failure.simps)
  have ce: "fst (spec_compensate_each (rev (take (Suc (nat i)) sts)) w) = rs"
    "snd (spec_compensate_each (rev (take (Suc (nat i)) sts)) w) = w'"
    using rs_compensated.hyps(9) k(3) by simp_all
  show ?case
    using rs_compensated.hyps(5,6,7,10) k ce
    by (simp add: only_compensations_first_failed_forward)
qed

subsection \<open>Evaluating the sagas of the tests\<close>

lemmas run_defs = errors_New_def plain_error_def Errorf_def Execute_def execute_loop.simps execute_body_def Compensate_def
  compensate_loop.simps call_StepState_def call_SetStepState_def call_ExecuteForward_def
  call_ExecuteCompensate_def ExecuteForward_def ExecuteCompensate_def Name_def index_def
  New_def AddStep_def NewStep_def InMemory_def InMemory_StepState_def InMemory_SetStepState_def
  NewInMemoryStateManager_def Wrapf_def format_v_def events_def

lemma second_fails_run:
  "fst (Execute second_fails) = Inr (Some (plain_error ''executing step step2: step2 error'')) \<and>
   events second_fails (snd (Execute second_fails)) =
     [StepStateCall 0 False None, ForwardCall 0 None, SetStepStateCall 0 True None,
      StepStateCall 1 False None, ForwardCall 1 (Some (errors_New ''step2 error'')),
      SetStepStateCall 1 False None, CompensateCall 1 None, CompensateCall 0 None] \<and>
   world (snd (Execute second_fails)) = 0 \<and>
   currentStep (snd (Execute second_fails)) = 1"
  by (simp add: second_fails_def run_defs)

lemmas mock_defs = Mock_def mock_StepState_def mock_SetStepState_def WithStateManager_def

lemma both_succeed_run:
  "fst (Execute both_succeed) = Inr None \<and>
   events both_succeed (snd (Execute both_succeed)) =
     [StepStateCall 0 False None, ForwardCall 0 None, SetStepStateCall 0 True None,
      StepStateCall 1 False None, ForwardCall 1 None, SetStepStateCall 1 True None] \<and>
   world (snd (Execute both_succeed)) = 2 \<and>
   currentStep (snd (Execute both_succeed)) = 2 \<and>
   state (store (snd (Execute both_succeed))) = [0 \<mapsto> True, 1 \<mapsto> True]"
  by (simp add: both_succeed_def run_defs)

lemma failed_to_compensate_run:
  "fst (Execute failed_to_compensate) = Inr (Some (plain_error ''compensating after failure in step step2: step2 error: compensation failed with errors: [step2 compensate error]'')) \<and>
   events failed_to_compensate (snd (Execute failed_to_compensate)) =
     [StepStateCall 0 False None, ForwardCall 0 None, SetStepStateCall 0 True None,
      StepStateCall 1 False None, ForwardCall 1 (Some (errors_New ''step2 error'')),
      SetStepStateCall 1 False None, CompensateCall 1 (Some (errors_New ''step2 compensate error'')),
      CompensateCall 0 None] \<and>
   world (snd (Execute failed_to_compensate)) = 0"
  by (simp add: failed_to_compensate_def run_defs)

lemma state_read_error_run:
  "fst (Execute state_read_error) =
     Inr (Some (plain_error ''retrieving state for step step1: step state error'')) \<and>
   events state_read_error (snd (Execute state_read_error)) =
     [StepStateCall 0 False (Some (errors_New ''step state error''))] \<and>
   world (snd (Execute state_read_error)) = 0"
  by (simp add: state_read_error_def run_defs mock_defs)

lemma state_write_error_run:
  "fst (Execute state_write_error) =
     Inr (Some (plain_error ''setting state for step step1: set step state error'')) \<and>
   events state_write_error (snd (Execute state_write_error)) =
     [StepStateCall 0 False None, ForwardCall 0 None,
      SetStepStateCall 0 True (Some (errors_New ''set step state error''))] \<and>
   world (snd (Execute state_write_error)) = 1"
  by (simp add: state_write_error_def run_defs mock_defs)

lemma retry_partial_first_run:
  "fst (Execute retry_partial) = Inr (Some (plain_error ''executing step step2: step2 error'')) \<and>
   events retry_partial (snd (Execute retry_partial)) =
     [StepStateCall 0 False None, ForwardCall 0 None, SetStepStateCall 0 True None,
      StepStateCall 1 False None, ForwardCall 1 (Some (errors_New ''step2 error'')),
      SetStepStateCall 1 False None, CompensateCall 1 None, CompensateCall 0 None] \<and>
   world (snd (Execute retry_partial)) = 1"
  by (simp add: retry_partial_def run_defs)

lemma retry_partial_second_run:
  "fst (Execute ((snd (Execute retry_partial))\<lparr>world := 5\<rparr>)) =
     Inr (Some (plain_error ''executing step step2: step2 error'')) \<and>
   events ((snd (Execute retry_partial))\<lparr>world := 5\<rparr>)
     (snd (Execute ((snd (Execute retry_partial))\<lparr>world := 5\<rparr>))) =
     [StepStateCall 0 True None,
      StepStateCall 1 False None, ForwardCall 1 (Some (errors_New ''step2 error'')),
      SetStepStateCall 1 False None, CompensateCall 1 None, CompensateCall 0 None] \<and>
   world (snd (Execute ((snd (Execute retry_partial))\<lparr>world := 5\<rparr>))) = 5"
  by (simp add: retry_partial_def run_defs)

lemma stateManager_InMemory [simp]:
  "stateManager second_fails = InMemory" "stateManager both_succeed = InMemory"
  "stateManager failed_to_compensate = InMemory" "stateManager retry_partial = InMemory"
  by (simp_all add: second_fails_def both_succeed_def failed_to_compensate_def retry_partial_def
        New_def AddStep_def)

lemma first_fails_write_error_run:
  "fst (Execute first_fails_write_error) =
     Inr (Some (plain_error ''setting state for step step1: set step state error'')) \<and>
   events first_fails_write_error (snd (Execute first_fails_write_error)) =
     [StepStateCall 0 False None, ForwardCall 0 (Some (errors_New ''step1 error'')),
      SetStepStateCall 0 False (Some (errors_New ''set step state error''))] \<and>
   world (snd (Execute first_fails_write_error)) = 0"
  by (simp add: first_fails_write_error_def run_defs mock_defs)

lemma two_compensations_fail_run:
  "fst (Compensate two_compensations_fail) =
     Inr (Some (plain_error ''compensation failed with errors: [undo c undo a]'')) \<and>
   events two_compensations_fail (snd (Compensate two_compensations_fail)) =
     [CompensateCall 2 (Some (errors_New ''undo c'')), CompensateCall 1 None, CompensateCall 0 (Some (errors_New ''undo a''))] \<and>
   world (snd (Compensate two_compensations_fail)) = 22"
  by (simp add: two_compensations_fail_def run_defs)

lemma second_read_fails_run:
  "fst (Execute second_read_fails) =
     Inr (Some (plain_error ''retrieving state for step step2: store unavailable'')) \<and>
   events second_read_fails (snd (Execute second_read_fails)) =
     [StepStateCall 0 False None, ForwardCall 0 None, SetStepStateCall 0 True None,
      StepStateCall 1 False (Some (errors_New ''store unavailable''))] \<and>
   world (snd (Execute second_read_fails)) = 1"
  by (simp add: second_read_fails_def both_succeed_def unavailable_at_def run_defs mock_defs)

lemma second_fails_store:
  "state (store (snd (Execute second_fails))) = [0 \<mapsto> True, 1 \<mapsto> False]"
  by (simp add: second_fails_def run_defs)

lemma second_fails_at_step2_head: "loop_head second_fails second_fails_at_step2"
proof -
  let ?t = "second_fails\<lparr>currentStep := 0\<rparr>"
  have "fst (execute_body ?t) = Continue"
    by (simp add: second_fails_def run_defs)
  then have b: "execute_body ?t = (Continue, snd (execute_body ?t))"
    by (simp add: prod_eq_iff)
  have l: "currentStep ?t < int (length (steps ?t))"
    by (simp add: second_fails_def New_def AddStep_def)
  have "currentStep (snd (execute_body ?t)) + 1 = 1"
    using execute_body_frame [of ?t] by simp
  with lh_next [OF lh_enter l b] show ?thesis
    by (simp add: second_fails_at_step2_def)
qed

lemma middle_fails_run:
  "fst (Execute middle_fails) = Inr (Some (plain_error ''executing step b: b failed'')) \<and>
   events middle_fails (snd (Execute middle_fails)) =
     [StepStateCall 0 False None, ForwardCall 0 None, SetStepStateCall 0 True None,
      StepStateCall 1 False None, ForwardCall 1 (Some (errors_New ''b failed'')),
      SetStepStateCall 1 False None, CompensateCall 1 None, CompensateCall 0 None] \<and>
   world (snd (Execute middle_fails)) = 212"
  by (simp add: middle_fails_def run_defs)

lemma formatted_errors_run:
  "fst (Execute formatted_errors) = Inr (Some (plain_error
     ''compensating after failure in step step2: E2: compensation failed with errors: [C2]''))"
  by (simp add: formatted_errors_def run_defs)

section \<open>The properties of the specification\<close>

text \<open>
  In the statements, \<open>fst (Execute s)\<close> is what \<open>Execute\<close> returns on the saga
  \<open>s\<close>, \<open>snd (Execute s)\<close> the saga it leaves and \<open>events s (snd (Execute s))\<close>
  the calls it made. Where a statement supposes that a call fails in a run, the call is
  in the log with the error it returned; what the actions do is in the world the run
  leaves.
\<close>

text \<open>
  C1 (compensation scope). On a state manager that keeps its promise, whose methods
  return no error and that holds no success record: if the forward actions, invoked in
  order from the world of the saga, return \<^verbatim>\<open>nil\<close> for the steps before \<open>k\<close> and an
  error for step \<open>k\<close>, leaving the world \<open>w\<close>, then \<open>Execute\<close> returns an error;
  the forward actions it invokes are those of the steps \<open>0, ..., k\<close>, so none of an
  index above \<open>k\<close>; the compensating actions it invokes are those of the steps
  \<open>k, k - 1, ..., 0\<close>, in this order and each once, the one of step \<open>k\<close> itself
  included, each on the world the one before left, from \<open>w\<close> on; what each is logged
  to return is what it returns there, and the world \<open>Execute\<close> leaves is the world
  the last of them leaves.
\<close>

theorem Execute_compensation_scope:
  assumes "store_contract (stateManager s) recorded"
    and "reads_succeed (stateManager s)" and "writes_succeed (stateManager s)"
    and "\<forall>j. \<not> recorded (store s) j"
    and "spec_forward_until_failure (steps s) (world s) = (k, Some e, w)"
  shows "(\<exists>err. fst (Execute s) = Inr (Some err)) \<and>
         first_failed_forward (events s (snd (Execute s))) = Some (int k) \<and>
         forwarded (events s (snd (Execute s))) = [0..int k] \<and>
         compensated (events s (snd (Execute s))) = rev [0..int k] \<and>
         compensations (events s (snd (Execute s))) =
           zip (rev [0..int k]) (fst (spec_compensate_each (rev (take (Suc k) (steps s))) w)) \<and>
         world (snd (Execute s)) = snd (spec_compensate_each (rev (take (Suc k) (steps s))) w)"
proof -
  have nr: "\<forall>j. 0 \<le> j \<longrightarrow> \<not> recorded (store s) j" using assms(4) by simp
  have f: "spec_forward_until_failure (drop (nat 0) (steps s)) (world s) = (k, Some e, w)"
    using assms(5) by simp
  show ?thesis
    using run_shape_first_failure_world [OF Execute_run assms(1,2,3) nr _ f] by simp
qed

theorem Execute_compensation_scope_witness:
  "store_contract (stateManager middle_fails) InMemory_recorded \<and>
   reads_succeed (stateManager middle_fails) \<and> writes_succeed (stateManager middle_fails) \<and>
   (\<forall>j. \<not> InMemory_recorded (store middle_fails) j) \<and>
   spec_forward_until_failure (steps middle_fails) (world middle_fails) =
     (1, Some (errors_New ''b failed''), 101) \<and>
   length (steps middle_fails) = 3 \<and>
   fst (Execute middle_fails) = Inr (Some (plain_error ''executing step b: b failed'')) \<and>
   forwarded (events middle_fails (snd (Execute middle_fails))) = [0, 1] \<and>
   compensated (events middle_fails (snd (Execute middle_fails))) = [1, 0] \<and>
   compensations (events middle_fails (snd (Execute middle_fails))) = [(1, None), (0, None)] \<and>
   snd (spec_compensate_each (rev (take (Suc 1) (steps middle_fails))) 101) = 212 \<and>
   world (snd (Execute middle_fails)) = 212"
proof -
  have sm: "stateManager middle_fails = InMemory"
    by (simp add: middle_fails_def New_def AddStep_def)
  have c: "store_contract (stateManager middle_fails) InMemory_recorded"
    and r: "reads_succeed (stateManager middle_fails)"
    and w: "writes_succeed (stateManager middle_fails)"
    by (simp_all add: sm InMemory_store_contract InMemory_reads_succeed InMemory_writes_succeed)
  have n: "\<forall>j. \<not> InMemory_recorded (store middle_fails) j"
    by (simp add: middle_fails_def New_def AddStep_def InMemory_recorded_def
          NewInMemoryStateManager_def)
  have f: "spec_forward_until_failure (steps middle_fails) (world middle_fails) =
      (1, Some (errors_New ''b failed''), 101)"
    by (simp add: middle_fails_def New_def AddStep_def NewStep_def)
  have l: "length (steps middle_fails) = 3"
    by (simp add: middle_fails_def New_def AddStep_def)
  have u: "snd (spec_compensate_each (rev (take (Suc 1) (steps middle_fails))) 101) = (212::int)"
    "fst (spec_compensate_each (rev (take (Suc 1) (steps middle_fails))) 101) = [None, None]"
    by (simp_all add: middle_fails_def New_def AddStep_def NewStep_def)
  show ?thesis
    using Execute_compensation_scope [OF c r w n f] c r w n f l u
    by (simp add: middle_fails_run upto_rec1)
qed

text \<open>
  C2 (sequential completion). On a state manager that keeps its promise and whose
  methods return no error: if no forward action invoked in the run returns an error,
  then \<open>Execute\<close> returns \<^verbatim>\<open>nil\<close>, no compensating action is invoked, and afterwards
  the state manager answers \<open>(true, nil)\<close> for every index of the step sequence. By
  the lemma \<open>forward_actions_succeed_in_run\<close> the hypothesis on the run holds when the
  forward action of every step returns \<^verbatim>\<open>nil\<close> on every world.
\<close>

theorem Execute_all_succeed:
  assumes "store_contract (stateManager s) recorded"
    and "reads_succeed (stateManager s)" and "writes_succeed (stateManager s)"
    and "first_failed_forward (events s (snd (Execute s))) = None"
  shows "fst (Execute s) = Inr None \<and>
         compensated (events s (snd (Execute s))) = [] \<and>
         (\<forall>i. 0 \<le> i \<and> i < int (length (steps s)) \<longrightarrow>
            recorded (store (snd (Execute s))) i \<and>
            fst (StepState (stateManager s) i (store (snd (Execute s)))) = (True, None))"
proof -
  let ?st' = "store (snd (Execute s))"
  have vac: "\<forall>j. 0 \<le> j \<and> j < (0::int) \<longrightarrow> recorded (store s) j" by auto
  have R: "fst (Execute s) = Inr None \<and> compensated (events s (snd (Execute s))) = [] \<and>
      currentStep (snd (Execute s)) = int (length (steps s)) \<and>
      (\<forall>j. 0 \<le> j \<and> j < int (length (steps s)) \<longrightarrow> recorded ?st' j)"
    using run_shape_all_succeed [OF Execute_run assms vac] by simp
  have "fst (StepState (stateManager s) i ?st') = (recorded ?st' i, None)" for i
    using assms(1,2) by (simp add: store_contract_def reads_succeed_def prod_eq_iff)
  with R show ?thesis by simp
qed

theorem Execute_all_succeed_witness:
  "store_contract (stateManager both_succeed) InMemory_recorded \<and>
   reads_succeed (stateManager both_succeed) \<and> writes_succeed (stateManager both_succeed) \<and>
   first_failed_forward (events both_succeed (snd (Execute both_succeed))) = None \<and>
   fst (Execute both_succeed) = Inr None \<and>
   compensated (events both_succeed (snd (Execute both_succeed))) = [] \<and>
   fst (StepState (stateManager both_succeed) 0 (store (snd (Execute both_succeed)))) = (True, None) \<and>
   fst (StepState (stateManager both_succeed) 1 (store (snd (Execute both_succeed)))) = (True, None)"
proof -
  have c: "store_contract (stateManager both_succeed) InMemory_recorded"
    and r: "reads_succeed (stateManager both_succeed)"
    and w: "writes_succeed (stateManager both_succeed)"
    by (simp_all add: InMemory_store_contract InMemory_reads_succeed InMemory_writes_succeed)
  have f: "first_failed_forward (events both_succeed (snd (Execute both_succeed))) = None"
    by (simp add: both_succeed_run)
  have l: "length (steps both_succeed) = 2"
    by (simp add: both_succeed_def New_def AddStep_def)
  show ?thesis
    using Execute_all_succeed [OF c r w f] c r w f l by simp
qed

text \<open>
  C3 (retry skips completed steps). On a state manager that keeps its promise and whose
  writes return no error: if in a first call of \<open>Execute\<close> step \<open>k\<close> is the first
  whose forward action returns an error, then a second call on the saga the first one
  left, whatever has become of the world \<open>w\<close> in between, invokes no forward action
  of an index below \<open>k\<close>.
\<close>

theorem Execute_retry_skips_completed:
  assumes "store_contract (stateManager s) recorded" and "writes_succeed (stateManager s)"
    and "first_failed_forward (events s (snd (Execute s))) = Some k"
  shows "\<forall>j \<in> set (forwarded (events ((snd (Execute s))\<lparr>world := w\<rparr>)
                 (snd (Execute ((snd (Execute s))\<lparr>world := w\<rparr>))))). k \<le> j"
proof -
  let ?s1 = "snd (Execute s)"
  let ?t = "?s1\<lparr>world := w\<rparr>"
  have c: "currentStep ?s1 = k"
    using run_shape_failed_forward [OF Execute_run assms(2,3)] by simp
  have vac: "\<forall>j. 0 \<le> j \<and> j < (0::int) \<longrightarrow> recorded (store s) j" by auto
  have "\<forall>j. 0 \<le> j \<and> j < currentStep ?s1 \<longrightarrow> recorded (store ?s1) j"
    using run_shape_records [OF Execute_run assms(1,2) vac] by simp
  with c have rec: "\<forall>j. 0 \<le> j \<and> j < k \<longrightarrow> recorded (store ?t) j" by simp
  have sm: "stateManager ?t = stateManager s"
    using Execute_shape [of s] by auto
  have "\<forall>j \<in> set (forwarded (events ?t (snd (Execute ?t)))). 0 \<le> j \<and> \<not> recorded (store ?t) j"
    using run_shape_forwarded_not_recorded [OF Execute_run, of ?t recorded] assms(1) sm by simp
  with rec show ?thesis by (meson not_le)
qed

theorem Execute_retry_skips_completed_witness:
  "store_contract (stateManager retry_partial) InMemory_recorded \<and>
   writes_succeed (stateManager retry_partial) \<and>
   first_failed_forward (events retry_partial (snd (Execute retry_partial))) = Some 1 \<and>
   forwarded (events ((snd (Execute retry_partial))\<lparr>world := 5\<rparr>)
                 (snd (Execute ((snd (Execute retry_partial))\<lparr>world := 5\<rparr>)))) = [1] \<and>
   list_all (\<lambda>j. 1 \<le> j) (forwarded (events ((snd (Execute retry_partial))\<lparr>world := 5\<rparr>)
                 (snd (Execute ((snd (Execute retry_partial))\<lparr>world := 5\<rparr>)))))"
proof -
  have c: "store_contract (stateManager retry_partial) InMemory_recorded"
    and w: "writes_succeed (stateManager retry_partial)"
    by (simp_all add: InMemory_store_contract InMemory_writes_succeed)
  have f: "first_failed_forward (events retry_partial (snd (Execute retry_partial))) = Some 1"
    by (simp add: retry_partial_first_run)
  show ?thesis
    using Execute_retry_skips_completed [OF c w f, of 5] c w f
    by (simp add: retry_partial_second_run list_all_iff)
qed

text \<open>
  C4 (completion records). On a state manager that keeps its promise and whose writes
  return no error: each time \<open>Execute\<close> tests the condition of its loop, and when it
  has returned, every index below \<open>currentStep\<close> has a success record; and if step
  \<open>k\<close> is the first whose forward action returns an error, the write of \<open>false\<close>
  for \<open>k\<close> follows that call at once, no compensating action is invoked before
  it, and the record of \<open>k\<close> is \<open>false\<close> when \<open>Execute\<close> has returned.
\<close>

theorem Execute_completion_records:
  assumes "store_contract (stateManager s) recorded" and "writes_succeed (stateManager s)"
  shows "(\<forall>t. loop_head s t \<longrightarrow> completed_below recorded t) \<and>
         completed_below recorded (snd (Execute s)) \<and>
         (\<forall>k. first_failed_forward (events s (snd (Execute s))) = Some k \<longrightarrow>
            \<not> recorded (store (snd (Execute s))) k \<and>
            (\<exists>pre e cevs. events s (snd (Execute s)) =
               pre @ ForwardCall k (Some e) # SetStepStateCall k False None # cevs \<and>
               compensated pre = []))"
proof -
  have vac: "\<forall>j. 0 \<le> j \<and> j < (0::int) \<longrightarrow> recorded (store s) j" by auto
  note R = run_shape_records [OF Execute_run assms vac]
  have "\<forall>t. loop_head s t \<longrightarrow> completed_below recorded t"
    using loop_head_completed_below [OF _ assms(1)] by blast
  moreover have "completed_below recorded (snd (Execute s))"
    using R by (simp add: completed_below_def)
  moreover have "\<exists>pre e cevs. events s (snd (Execute s)) =
               pre @ ForwardCall k (Some e) # SetStepStateCall k False None # cevs \<and>
               compensated pre = []"
    if "first_failed_forward (events s (snd (Execute s))) = Some k" for k
    using run_shape_false_before_compensation [OF Execute_run assms(2) that] .
  ultimately show ?thesis using R by blast
qed

theorem Execute_completion_records_witness:
  "store_contract (stateManager second_fails) InMemory_recorded \<and>
   writes_succeed (stateManager second_fails) \<and>
   loop_head second_fails second_fails_at_step2 \<and>
   currentStep second_fails_at_step2 = 1 \<and>
   completed_below InMemory_recorded second_fails_at_step2 \<and>
   completed_below InMemory_recorded (snd (Execute second_fails)) \<and>
   first_failed_forward (events second_fails (snd (Execute second_fails))) = Some 1 \<and>
   \<not> InMemory_recorded (store (snd (Execute second_fails))) 1 \<and>
   InMemory_recorded (store (snd (Execute second_fails))) 0"
proof -
  have c: "store_contract (stateManager second_fails) InMemory_recorded"
    and w: "writes_succeed (stateManager second_fails)"
    by (simp_all add: InMemory_store_contract InMemory_writes_succeed)
  have f: "first_failed_forward (events second_fails (snd (Execute second_fails))) = Some 1"
    by (simp add: second_fails_run)
  have r: "InMemory_recorded (store (snd (Execute second_fails))) 0"
    by (simp add: InMemory_recorded_def second_fails_store)
  show ?thesis
    using Execute_completion_records [OF c w] c w f r second_fails_at_step2_head
    by (simp add: second_fails_at_step2_def)
qed

text \<open>
  C5 (compensation is best effort and aggregates). For every saga: when \<open>currentStep\<close>
  is an index of the step sequence, \<open>Compensate\<close> invokes the compensating actions
  of the steps \<open>currentStep, ..., 0\<close>, in this order, each once and each on the world
  the one before left, whatever they return: its calls are these with what the actions
  return, the world it leaves is the one the last of them leaves, and it returns
  \<^verbatim>\<open>nil\<close> if none returned an error and otherwise the one error that lists, as
  \<^verbatim>\<open>%v\<close> prints them, all the errors returned, in the order of the calls. Read in the
  log: a compensating action of a step \<open>j\<close> that returns an error is followed by the
  compensating actions of \<open>j - 1, ..., 0\<close>, in this order; and if some compensating
  action returned an error, the error returned lists all of them.
\<close>

theorem Compensate_best_effort:
  "(0 \<le> currentStep s \<and> currentStep s < int (length (steps s)) \<longrightarrow>
      (let run = spec_compensate_each (rev (take (Suc (nat (currentStep s))) (steps s))) (world s) in
         events s (snd (Compensate s)) = map2 CompensateCall (rev [0..currentStep s]) (fst run) \<and>
         world (snd (Compensate s)) = snd run \<and>
         fst (Compensate s) =
           Inr (if failures (fst run) = [] then None
                else Some (Errorf (''compensation failed with errors: '' @
                       format_v (failures (fst run))))))) \<and>
   (\<forall>pre j e post.
      events s (snd (Compensate s)) = pre @ CompensateCall j (Some e) # post \<longrightarrow>
      compensated post = rev [0..j - 1]) \<and>
   (compensate_errors (events s (snd (Compensate s))) \<noteq> [] \<longrightarrow>
      fst (Compensate s) = Inr (Some (Errorf (''compensation failed with errors: '' @
        format_v (compensate_errors (events s (snd (Compensate s)))))))) \<and>
   (0 \<le> currentStep s \<and> currentStep s < int (length (steps s)) \<longrightarrow>
      compensated (events s (snd (Compensate s))) = rev [0..currentStep s] \<and>
      length (events s (snd (Compensate s))) = length (compensated (events s (snd (Compensate s)))) \<and>
      (compensate_errors (events s (snd (Compensate s))) = [] \<longrightarrow> fst (Compensate s) = Inr None))"
proof -
  consider "currentStep s < 0" | "int (length (steps s)) \<le> currentStep s"
    | "0 \<le> currentStep s" "currentStep s < int (length (steps s))"
    by linarith
  then show ?thesis
  proof cases
    case 1
    then show ?thesis by (simp add: Compensate_neg)
  next
    case 2
    then show ?thesis by (simp add: Compensate_out_of_range)
  next
    case 3
    let ?run = "spec_compensate_each (rev (take (Suc (nat (currentStep s))) (steps s))) (world s)"
    from Compensate_shape [OF 3] obtain s' cevs where C:
      "Compensate s =
         (Inr (if compensate_errors cevs = [] then None
               else Some (Errorf (''compensation failed with errors: '' @ format_v (compensate_errors cevs)))), s')"
      "trace s' = trace s @ cevs" "compensated cevs = rev [0..currentStep s]"
      "\<forall>ev \<in> set cevs. \<exists>j e. ev = CompensateCall j e"
      by blast
    have ev: "events s (snd (Compensate s)) = cevs"
      using C(1,2) by simp
    note W = Compensate_world [OF 3]
    have cv: "cevs = map2 CompensateCall (rev [0..currentStep s]) (fst ?run)"
      using W C(1,2) by simp
    have ln: "length (rev [0..currentStep s]) = length (fst ?run)"
      using 3 by simp
    have ce: "compensate_errors cevs = failures (fst ?run)"
      unfolding cv using ln by (rule compensate_errors_map2)
    have "compensated post = rev [0..j - 1]"
      if "cevs = pre @ CompensateCall j (Some e) # post" for pre j e post
    proof -
      have "compensated pre @ j # compensated post = rev [0..currentStep s]"
        using C(3) that by simp
      then show ?thesis by (rule rev_upto_split)
    qed
    moreover have "length cevs = length (compensated cevs)"
      using only_compensations_compensated [OF C(4)] by simp
    moreover have "events s (snd (Compensate s)) =
        map2 CompensateCall (rev [0..currentStep s]) (fst ?run)"
      using ev cv by simp
    moreover have "world (snd (Compensate s)) = snd ?run"
      using W by simp
    moreover have "fst (Compensate s) =
           Inr (if failures (fst ?run) = [] then None
                else Some (Errorf (''compensation failed with errors: '' @
                       format_v (failures (fst ?run)))))"
      using C(1) ce by simp
    ultimately show ?thesis
      using C(1,3) 3 ce unfolding ev Let_def by simp
  qed
qed

theorem Compensate_best_effort_witness:
  "0 \<le> currentStep two_compensations_fail \<and>
   currentStep two_compensations_fail < int (length (steps two_compensations_fail)) \<and>
   spec_compensate_each (rev (take (Suc (nat (currentStep two_compensations_fail)))
       (steps two_compensations_fail))) (world two_compensations_fail) =
     ([Some (errors_New ''undo c''), None, Some (errors_New ''undo a'')], 22) \<and>
   events two_compensations_fail (snd (Compensate two_compensations_fail)) =
     [] @ CompensateCall 2 (Some (errors_New ''undo c'')) #
       [CompensateCall 1 None, CompensateCall 0 (Some (errors_New ''undo a''))] \<and>
   compensated [CompensateCall 1 None, CompensateCall 0 (Some (errors_New ''undo a''))] = [1, 0] \<and>
   world (snd (Compensate two_compensations_fail)) = 22 \<and>
   compensate_errors (events two_compensations_fail (snd (Compensate two_compensations_fail))) =
     [errors_New ''undo c'', errors_New ''undo a''] \<and>
   fst (Compensate two_compensations_fail) =
     Inr (Some (plain_error ''compensation failed with errors: [undo c undo a]'')) \<and>
   compensated (events two_compensations_fail (snd (Compensate two_compensations_fail))) = [2, 1, 0] \<and>
   compensate_errors (events (second_fails\<lparr>currentStep := 1\<rparr>)
     (snd (Compensate (second_fails\<lparr>currentStep := 1\<rparr>)))) = [] \<and>
   fst (Compensate (second_fails\<lparr>currentStep := 1\<rparr>)) = Inr None"
proof -
  have r: "0 \<le> currentStep two_compensations_fail \<and>
      currentStep two_compensations_fail < int (length (steps two_compensations_fail))"
    by (simp add: two_compensations_fail_def New_def AddStep_def)
  have u: "spec_compensate_each (rev (take (Suc (nat (currentStep two_compensations_fail)))
       (steps two_compensations_fail))) (world two_compensations_fail) =
     ([Some (errors_New ''undo c''), None, Some (errors_New ''undo a'')], 22)"
    by (simp add: two_compensations_fail_def New_def AddStep_def NewStep_def)
  have cs: "currentStep two_compensations_fail = 2"
    by (simp add: two_compensations_fail_def)
  have r2: "0 \<le> currentStep (second_fails\<lparr>currentStep := 1\<rparr>) \<and>
      currentStep (second_fails\<lparr>currentStep := 1\<rparr>) <
        int (length (steps (second_fails\<lparr>currentStep := 1\<rparr>)))"
    by (simp add: second_fails_def New_def AddStep_def)
  have e2: "compensate_errors (events (second_fails\<lparr>currentStep := 1\<rparr>)
     (snd (Compensate (second_fails\<lparr>currentStep := 1\<rparr>)))) = []"
    by (simp add: second_fails_def run_defs)
  show ?thesis
    using Compensate_best_effort [of two_compensations_fail]
          Compensate_best_effort [of "second_fails\<lparr>currentStep := 1\<rparr>"] r u r2 e2 cs
    by (simp add: two_compensations_fail_run upto_rec1)
qed

text \<open>
  C6 (a failed write is fatal). For every saga and every state manager: if a call of
  \<^verbatim>\<open>SetStepState\<close> in a run of \<open>Execute\<close> returns an error, for the value
  \<open>true\<close> or for \<open>false\<close>, then \<open>Execute\<close> returns that error wrapped with the
  name of the step, the failed write is the last call of the run, and no compensating
  action is invoked.
\<close>

theorem Execute_state_write_fatal:
  assumes "SetStepStateCall i b (Some err) \<in> set (events s (snd (Execute s)))"
  shows "fst (Execute s) =
           Inr (Some (Wrapf err (''setting state for step '' @ Name (steps s ! nat i)))) \<and>
         compensated (events s (snd (Execute s))) = [] \<and>
         last (events s (snd (Execute s))) = SetStepStateCall i b (Some err) \<and>
         0 \<le> i \<and> i < int (length (steps s))"
  using run_shape_write_failed [OF Execute_run assms] by simp

theorem Execute_state_write_fatal_witness:
  "SetStepStateCall 0 True (Some (errors_New ''set step state error''))
     \<in> set (events state_write_error (snd (Execute state_write_error))) \<and>
   SetStepStateCall 0 False (Some (errors_New ''set step state error''))
     \<in> set (events first_fails_write_error (snd (Execute first_fails_write_error))) \<and>
   fst (Execute state_write_error) =
     Inr (Some (plain_error ''setting state for step step1: set step state error'')) \<and>
   fst (Execute first_fails_write_error) =
     Inr (Some (plain_error ''setting state for step step1: set step state error'')) \<and>
   compensated (events state_write_error (snd (Execute state_write_error))) = [] \<and>
   compensated (events first_fails_write_error (snd (Execute first_fails_write_error))) = []"
proof -
  have a: "SetStepStateCall 0 True (Some (errors_New ''set step state error''))
     \<in> set (events state_write_error (snd (Execute state_write_error)))"
    by (simp add: state_write_error_run)
  have b: "SetStepStateCall 0 False (Some (errors_New ''set step state error''))
     \<in> set (events first_fails_write_error (snd (Execute first_fails_write_error)))"
    by (simp add: first_fails_write_error_run)
  have n: "Name (steps state_write_error ! 0) = ''step1''"
    "Name (steps first_fails_write_error ! 0) = ''step1''"
    by (simp_all add: state_write_error_def first_fails_write_error_def New_def AddStep_def
          NewStep_def Name_def mock_defs)
  show ?thesis
    using Execute_state_write_fatal [OF a] Execute_state_write_fatal [OF b] a b n
    by (simp add: Wrapf_def errors_New_def plain_error_def)
qed

text \<open>
  C7 (a failed query is fatal). For every saga and every state manager: if the query of
  the completion of step \<open>i\<close> returns an error, then \<open>Execute\<close> returns that error
  wrapped with the name of the step, the failed query is the last call of the run, so
  that every forward action invoked is of an index below \<open>i\<close>, and no compensating
  action is invoked.
\<close>

theorem Execute_state_read_fatal:
  assumes "StepStateCall i b (Some err) \<in> set (events s (snd (Execute s)))"
  shows "fst (Execute s) =
           Inr (Some (Wrapf err (''retrieving state for step '' @ Name (steps s ! nat i)))) \<and>
         last (events s (snd (Execute s))) = StepStateCall i b (Some err) \<and>
         (\<forall>j \<in> set (forwarded (events s (snd (Execute s)))). j < i) \<and>
         compensated (events s (snd (Execute s))) = [] \<and>
         0 \<le> i \<and> i < int (length (steps s))"
  using run_shape_read_failed [OF Execute_run assms] by simp

theorem Execute_state_read_fatal_witness:
  "StepStateCall 0 False (Some (errors_New ''step state error''))
     \<in> set (events state_read_error (snd (Execute state_read_error))) \<and>
   fst (Execute state_read_error) =
     Inr (Some (plain_error ''retrieving state for step step1: step state error'')) \<and>
   forwarded (events state_read_error (snd (Execute state_read_error))) = [] \<and>
   compensated (events state_read_error (snd (Execute state_read_error))) = [] \<and>
   StepStateCall 1 False (Some (errors_New ''store unavailable''))
     \<in> set (events second_read_fails (snd (Execute second_read_fails))) \<and>
   fst (Execute second_read_fails) =
     Inr (Some (plain_error ''retrieving state for step step2: store unavailable'')) \<and>
   forwarded (events second_read_fails (snd (Execute second_read_fails))) = [0] \<and>
   list_all (\<lambda>j. j < 1) (forwarded (events second_read_fails (snd (Execute second_read_fails)))) \<and>
   compensated (events second_read_fails (snd (Execute second_read_fails))) = []"
proof -
  have a: "StepStateCall 0 False (Some (errors_New ''step state error''))
     \<in> set (events state_read_error (snd (Execute state_read_error)))"
    by (simp add: state_read_error_run)
  have b: "StepStateCall 1 False (Some (errors_New ''store unavailable''))
     \<in> set (events second_read_fails (snd (Execute second_read_fails)))"
    by (simp add: second_read_fails_run)
  have n: "Name (steps state_read_error ! 0) = ''step1''"
    "Name (steps second_read_fails ! 1) = ''step2''"
    by (simp_all add: state_read_error_def second_read_fails_def both_succeed_def
          New_def AddStep_def NewStep_def Name_def mock_defs)
  have f: "forwarded (events state_read_error (snd (Execute state_read_error))) = []"
    "forwarded (events second_read_fails (snd (Execute second_read_fails))) = [0]"
    by (simp_all add: state_read_error_run second_read_fails_run)
  show ?thesis
    using Execute_state_read_fatal [OF a] Execute_state_read_fatal [OF b] a b n f
    by (simp add: Wrapf_def errors_New_def plain_error_def list_all_iff)
qed

text \<open>
  C8 (the messages). In a saga of two steps on a state manager whose writes return no
  error, the second step being named \<^verbatim>\<open>step2\<close> and its forward action returning an
  error \<open>e\<close>: if \<^verbatim>\<open>Error()\<close> of \<open>e\<close> is \<^verbatim>\<open>step2 error\<close> and no compensating
  action fails, \<open>Execute\<close> returns an error with the message
  \<^verbatim>\<open>executing step step2: step2 error\<close>; if \<open>e\<close> prints under \<^verbatim>\<open>%v\<close> as
  \<^verbatim>\<open>step2 error\<close> and the compensating action of the second step fails, and it alone,
  with an error that prints under \<^verbatim>\<open>%v\<close> as \<^verbatim>\<open>step2 compensate error\<close>, \<open>Execute\<close>
  returns an error with the message
  \<^verbatim>\<open>compensating after failure in step step2: step2 error: compensation failed with errors: [step2 compensate error]\<close>.
  The first message is built from \<^verbatim>\<open>Error()\<close> of the forward error and the second
  from what \<^verbatim>\<open>%v\<close> prints for the two errors (\<^verbatim>\<open>saga.go\<close>, lines 87, 91 and 116); for
  the errors of \<^verbatim>\<open>errors.New\<close>, as in the tests, the two texts are the same, and the
  lemma \<open>formatted_errors_run\<close> shows a run where they are not.
\<close>

theorem Execute_error_messages:
  assumes "length (steps s) = 2" and "Name (steps s ! 1) = ''step2''"
    and "writes_succeed (stateManager s)"
    and "ForwardCall 1 (Some e) \<in> set (events s (snd (Execute s)))"
  shows "(Error e = ''step2 error'' \<and> compensate_errors (events s (snd (Execute s))) = [] \<longrightarrow>
            fst (Execute s) = Inr (Some (plain_error ''executing step step2: step2 error''))) \<and>
         (Format_v e = ''step2 error'' \<and>
          CompensateCall 1 (Some ce) \<in> set (events s (snd (Execute s))) \<and>
          compensate_errors (events s (snd (Execute s))) = [ce] \<and>
          Format_v ce = ''step2 compensate error'' \<longrightarrow>
            fst (Execute s) = Inr (Some (plain_error
              ''compensating after failure in step step2: step2 error: compensation failed with errors: [step2 compensate error]'')))"
  using run_shape_forward_failed [OF Execute_run assms(3,4)] assms(2)
  by (simp add: Wrapf_def Errorf_def plain_error_def format_v_def)

theorem Execute_error_messages_witness:
  "length (steps second_fails) = 2 \<and> Name (steps second_fails ! 1) = ''step2'' \<and>
   writes_succeed (stateManager second_fails) \<and>
   ForwardCall 1 (Some (errors_New ''step2 error''))
     \<in> set (events second_fails (snd (Execute second_fails))) \<and>
   Error (errors_New ''step2 error'') = ''step2 error'' \<and>
   compensate_errors (events second_fails (snd (Execute second_fails))) = [] \<and>
   fst (Execute second_fails) = Inr (Some (plain_error ''executing step step2: step2 error'')) \<and>
   length (steps failed_to_compensate) = 2 \<and> Name (steps failed_to_compensate ! 1) = ''step2'' \<and>
   writes_succeed (stateManager failed_to_compensate) \<and>
   ForwardCall 1 (Some (errors_New ''step2 error''))
     \<in> set (events failed_to_compensate (snd (Execute failed_to_compensate))) \<and>
   Format_v (errors_New ''step2 error'') = ''step2 error'' \<and>
   CompensateCall 1 (Some (errors_New ''step2 compensate error''))
     \<in> set (events failed_to_compensate (snd (Execute failed_to_compensate))) \<and>
   compensate_errors (events failed_to_compensate (snd (Execute failed_to_compensate))) =
     [errors_New ''step2 compensate error''] \<and>
   Format_v (errors_New ''step2 compensate error'') = ''step2 compensate error'' \<and>
   fst (Execute failed_to_compensate) = Inr (Some (plain_error
     ''compensating after failure in step step2: step2 error: compensation failed with errors: [step2 compensate error]''))"
proof -
  have l: "length (steps second_fails) = 2" "length (steps failed_to_compensate) = 2"
    and n: "Name (steps second_fails ! 1) = ''step2''"
      "Name (steps failed_to_compensate ! 1) = ''step2''"
    by (simp_all add: second_fails_def failed_to_compensate_def New_def AddStep_def
          NewStep_def Name_def)
  have w: "writes_succeed (stateManager second_fails)"
    "writes_succeed (stateManager failed_to_compensate)"
    by (simp_all add: InMemory_writes_succeed)
  have f: "ForwardCall 1 (Some (errors_New ''step2 error''))
      \<in> set (events second_fails (snd (Execute second_fails)))"
    "ForwardCall 1 (Some (errors_New ''step2 error''))
      \<in> set (events failed_to_compensate (snd (Execute failed_to_compensate)))"
    by (simp_all add: second_fails_run failed_to_compensate_run)
  have c: "compensate_errors (events second_fails (snd (Execute second_fails))) = []"
    "CompensateCall 1 (Some (errors_New ''step2 compensate error''))
       \<in> set (events failed_to_compensate (snd (Execute failed_to_compensate)))"
    "compensate_errors (events failed_to_compensate (snd (Execute failed_to_compensate))) =
       [errors_New ''step2 compensate error'']"
    by (simp_all add: second_fails_run failed_to_compensate_run)
  have t: "Error (errors_New ''step2 error'') = ''step2 error''"
    "Format_v (errors_New ''step2 error'') = ''step2 error''"
    "Format_v (errors_New ''step2 compensate error'') = ''step2 compensate error''"
    by (simp_all add: errors_New_def plain_error_def)
  show ?thesis
    using Execute_error_messages [OF l(1) n(1) w(1) f(1), of "errors_New ''step2 compensate error''"]
          Execute_error_messages [OF l(2) n(2) w(2) f(2), of "errors_New ''step2 compensate error''"]
          l n w f c t
    by simp
qed

text \<open>
  C9 (the in-memory state manager). \<^verbatim>\<open>StepState\<close> of an index with no record is
  \<open>(false, nil)\<close>; \<^verbatim>\<open>SetStepState(i, b)\<close> returns \<^verbatim>\<open>nil\<close> and leaves \<open>b\<close> as
  the record of \<open>i\<close>, whatever was recorded before, and every other record as it was;
  \<^verbatim>\<open>StepState(i)\<close> then returns \<open>(b, nil)\<close>; and \<^verbatim>\<open>StepState\<close> never returns an
  error nor changes the object.
\<close>

theorem InMemory_round_trip:
  "(state m i = None \<longrightarrow> InMemory_StepState i m = ((False, None), m)) \<and>
   fst (InMemory_SetStepState i b m) = None \<and>
   state (snd (InMemory_SetStepState i b m)) = (state m)(i \<mapsto> b) \<and>
   fst (InMemory_StepState i (snd (InMemory_SetStepState i b m))) = (b, None) \<and>
   snd (fst (InMemory_StepState i m)) = None \<and>
   snd (InMemory_StepState i m) = m"
  by (simp add: InMemory_StepState_def InMemory_SetStepState_def split: option.splits)

theorem InMemory_round_trip_witness:
  "state NewInMemoryStateManager 3 = None \<and>
   InMemory_StepState 3 NewInMemoryStateManager = ((False, None), NewInMemoryStateManager) \<and>
   fst (InMemory_StepState 3 (snd (InMemory_SetStepState 3 True
          (snd (InMemory_SetStepState 3 False NewInMemoryStateManager))))) = (True, None)"
  using InMemory_round_trip [of NewInMemoryStateManager 3 False]
        InMemory_round_trip [of "snd (InMemory_SetStepState 3 False NewInMemoryStateManager)" 3 True]
  by (simp add: NewInMemoryStateManager_def)

text \<open>
  C10 (Compensate does not check its index). \<open>Compensate\<close> returns without a panic
  when \<open>currentStep\<close> is an index of the step sequence, and panics at its first
  index expression, having invoked nothing, when \<open>currentStep\<close> is the length of the
  sequence or more. So it panics on a new saga with no step; and since \<open>Execute\<close>
  leaves \<open>currentStep\<close> between 0 and the length of the sequence, and at the length
  when it returns \<^verbatim>\<open>nil\<close>, it panics after every call of \<open>Execute\<close> that succeeded.
  (\<open>currentStep\<close> is never negative: it is 0 in a new saga and only \<open>Execute\<close>
  assigns it.)
\<close>

theorem Compensate_index_out_of_range:
  "(0 \<le> currentStep s \<and> currentStep s < int (length (steps s)) \<longrightarrow>
      (\<exists>r. fst (Compensate s) = Inr r)) \<and>
   (int (length (steps s)) \<le> currentStep s \<longrightarrow>
      Compensate s = (Inl (IndexOutOfRange (currentStep s) (length (steps s))), s)) \<and>
   Compensate (New w) = (Inl (IndexOutOfRange 0 0), New w) \<and>
   0 \<le> currentStep (snd (Execute s)) \<and>
   currentStep (snd (Execute s)) \<le> int (length (steps s)) \<and>
   (fst (Execute s) = Inr None \<longrightarrow>
      fst (Compensate (snd (Execute s))) =
        Inl (IndexOutOfRange (int (length (steps s))) (length (steps s))))"
proof -
  have "\<exists>r. fst (Compensate s) = Inr r"
    if "0 \<le> currentStep s" "currentStep s < int (length (steps s))"
    using Compensate_shape [OF that] by force
  moreover have "Compensate (New w) = (Inl (IndexOutOfRange 0 0), New w)"
    using Compensate_out_of_range [of "New w"] by (simp add: New_def)
  moreover have "0 \<le> currentStep (snd (Execute s)) \<and>
      currentStep (snd (Execute s)) \<le> int (length (steps s))"
    using run_shape_currentStep [OF Execute_run, of s] by simp
  moreover have "fst (Compensate (snd (Execute s))) =
        Inl (IndexOutOfRange (int (length (steps s))) (length (steps s)))"
    if "fst (Execute s) = Inr None"
  proof -
    have "currentStep (snd (Execute s)) = int (length (steps s))"
      using run_shape_success [OF Execute_run that] by simp
    moreover have "steps (snd (Execute s)) = steps s"
      using Execute_shape [of s] by auto
    ultimately show ?thesis
      using Compensate_out_of_range [of "snd (Execute s)"] by simp
  qed
  ultimately show ?thesis
    using Compensate_out_of_range [of s] by blast
qed

theorem Compensate_index_out_of_range_witness:
  "0 \<le> currentStep (second_fails\<lparr>currentStep := 1\<rparr>) \<and>
   currentStep (second_fails\<lparr>currentStep := 1\<rparr>) <
     int (length (steps (second_fails\<lparr>currentStep := 1\<rparr>))) \<and>
   fst (Compensate (second_fails\<lparr>currentStep := 1\<rparr>)) = Inr None \<and>
   int (length (steps (New (0::int)))) \<le> currentStep (New (0::int)) \<and>
   Compensate (New (0::int)) = (Inl (IndexOutOfRange 0 0), New 0) \<and>
   fst (Execute both_succeed) = Inr None \<and>
   fst (Compensate (snd (Execute both_succeed))) = Inl (IndexOutOfRange 2 2)"
proof -
  have r: "0 \<le> currentStep (second_fails\<lparr>currentStep := 1\<rparr>) \<and>
      currentStep (second_fails\<lparr>currentStep := 1\<rparr>) <
        int (length (steps (second_fails\<lparr>currentStep := 1\<rparr>)))"
    by (simp add: second_fails_def New_def AddStep_def)
  have c: "fst (Compensate (second_fails\<lparr>currentStep := 1\<rparr>)) = Inr None"
    by (simp add: second_fails_def run_defs)
  have n: "int (length (steps (New (0::int)))) \<le> currentStep (New (0::int))"
    by (simp add: New_def)
  have e: "fst (Execute both_succeed) = Inr None"
    by (simp add: both_succeed_run)
  have l: "length (steps both_succeed) = 2"
    by (simp add: both_succeed_def New_def AddStep_def)
  show ?thesis
    using Compensate_index_out_of_range [of "second_fails\<lparr>currentStep := 1\<rparr>" "0::int"]
          Compensate_index_out_of_range [of "New (0::int)" "0::int"]
          Compensate_index_out_of_range [of both_succeed "0::int"] r c n e l
    by simp
qed

end
